theory Spec2Isabelle
  imports Main "HOL-Library.Char_ord" "HOL-Library.List_Lexorder"
begin

section \<open>Python values: exceptions, indexing, loops\<close>

text \<open>
  Every Python exception that \<^verbatim>\<open>csolver.py\<close> can raise is a value. A computation that may
  raise returns \<open>pyerror + 'a\<close>, with \<open>Inl\<close> for the exception.
\<close>

datatype pyerror =
    IndexError | ValueError | FileNotFoundError | PermissionError | IsADirectoryError | ReadError

type_synonym 'a res = "pyerror + 'a"

fun bnd :: "'a res \<Rightarrow> ('a \<Rightarrow> 'b res) \<Rightarrow> 'b res" where
  "bnd (Inl e) f = Inl e"
| "bnd (Inr x) f = f x"

text \<open>
  \<^verbatim>\<open>xs[i]\<close> on a Python list (and on one axis of a numpy array): an index from \<open>-len\<close> up to
  \<open>len - 1\<close> is accepted, a negative one counting from the end; any other raises IndexError.
\<close>

definition py_index :: "'a list \<Rightarrow> int \<Rightarrow> 'a res" where
  "py_index xs i =
     (if - int (length xs) \<le> i \<and> i < int (length xs)
      then Inr (xs ! nat (i mod int (length xs)))
      else Inl IndexError)"

text \<open>\<^verbatim>\<open>xs[i][j]\<close>: the row is fetched first, then the cell.\<close>

definition py_index2 :: "'a list list \<Rightarrow> int \<Rightarrow> int \<Rightarrow> 'a res" where
  "py_index2 xs i j = bnd (py_index xs i) (\<lambda>row. py_index row j)"

text \<open>\<^verbatim>\<open>xs[i] = v\<close>, with the same index rule.\<close>

definition py_update :: "'a list \<Rightarrow> int \<Rightarrow> 'a \<Rightarrow> 'a list res" where
  "py_update xs i v =
     (if - int (length xs) \<le> i \<and> i < int (length xs)
      then Inr (xs[nat (i mod int (length xs)) := v])
      else Inl IndexError)"

text \<open>\<^verbatim>\<open>xs[i][j] = v\<close>.\<close>

definition py_update2 :: "'a list list \<Rightarrow> int \<Rightarrow> int \<Rightarrow> 'a \<Rightarrow> 'a list list res" where
  "py_update2 xs i j v =
     bnd (py_index xs i) (\<lambda>row. bnd (py_update row j v) (\<lambda>row'. py_update xs i row'))"

text \<open>\<^verbatim>\<open>range(a, b)\<close> over the integers; it is empty when \<open>b \<le> a\<close>.\<close>

definition py_range :: "int \<Rightarrow> int \<Rightarrow> int list" where
  "py_range a b = map (\<lambda>k. a + int k) [0..<nat (b - a)]"

text \<open>
  A \<^verbatim>\<open>for\<close> loop whose body adds items to a collection owned by the function (the solver's
  assertions, the lines of a file): the body returns what one iteration adds, and the loop stops
  at the first exception.
\<close>

fun for_each :: "'a list \<Rightarrow> ('a \<Rightarrow> 'b list res) \<Rightarrow> 'b list res" where
  "for_each [] body = Inr []"
| "for_each (x # xs) body =
     bnd (body x) (\<lambda>ys. bnd (for_each xs body) (\<lambda>zs. Inr (ys @ zs)))"

text \<open>A \<^verbatim>\<open>for\<close> loop that updates one variable.\<close>

fun fold_res :: "('a \<Rightarrow> 's \<Rightarrow> 's res) \<Rightarrow> 'a list \<Rightarrow> 's \<Rightarrow> 's res" where
  "fold_res f [] s = Inr s"
| "fold_res f (x # xs) s = bnd (f x s) (\<lambda>s'. fold_res f xs s')"

subsection \<open>Decimal and binary numerals as strings\<close>

definition digit_char :: "nat \<Rightarrow> char" where
  "digit_char d = ''0123456789'' ! d"

text \<open>\<^verbatim>\<open>str(n)\<close> for a natural number.\<close>

fun str_nat :: "nat \<Rightarrow> string" where
  "str_nat n = (if n < 10 then [digit_char n] else str_nat (n div 10) @ [digit_char (n mod 10)])"

declare str_nat.simps [simp del]

text \<open>\<^verbatim>\<open>bin(n)[2:]\<close>: the binary digits, most significant first, \<^verbatim>\<open>"0"\<close> for zero.\<close>

fun bin_digits :: "nat \<Rightarrow> string" where
  "bin_digits n = (if n < 2 then [digit_char n] else bin_digits (n div 2) @ [digit_char (n mod 2)])"

declare bin_digits.simps [simp del]

text \<open>\<^verbatim>\<open>s.zfill(width)\<close> for a string with no sign.\<close>

definition zfill :: "nat \<Rightarrow> string \<Rightarrow> string" where
  "zfill width s = replicate (width - length s) (CHR ''0'') @ s"

text \<open>
  \<^verbatim>\<open>math.ceil(math.log2(n))\<close> for \<open>n \<ge> 1\<close>: the least \<open>k\<close> with \<open>n \<le> 2 ^ k\<close>. (The source
  computes it in double precision, which is exact for every row count a file can hold.)
\<close>

fun ceil_log2 :: "nat \<Rightarrow> nat" where
  "ceil_log2 n = (if n \<le> 1 then 0 else Suc (ceil_log2 ((n + 1) div 2)))"

declare ceil_log2.simps [simp del]

section \<open>The constraint encoder\<close>

text \<open>
  The propositional atoms \<^verbatim>\<open>Bool("c_i_j")\<close>, \<^verbatim>\<open>Bool("v_i_t")\<close> and \<^verbatim>\<open>Bool("n_i")\<close>, and the
  name under which the solver knows each.
\<close>

datatype atom = C nat nat | V nat nat | N nat

fun atom_name :: "atom \<Rightarrow> string" where
  "atom_name (C i j) = ''c_'' @ str_nat i @ ''_'' @ str_nat j"
| "atom_name (V i t) = ''v_'' @ str_nat i @ ''_'' @ str_nat t"
| "atom_name (N i) = ''n_'' @ str_nat i"

text \<open>The \<open>v\<close> family of atoms.\<close>

fun is_v :: "atom \<Rightarrow> bool" where
  "is_v (V i t) = True"
| "is_v (C i j) = False"
| "is_v (N i) = False"

text \<open>
  The terms handed to the solver. A Python \<^verbatim>\<open>True\<close> or \<^verbatim>\<open>False\<close> given to a z3 connective is
  the constant \<open>Const\<close>; \<^verbatim>\<open>a == b\<close> on z3 terms is \<open>Eq\<close>.
\<close>

datatype form =
    Atom atom
  | Const bool
  | And form form
  | Or form form
  | Not_z3 form
  | Xor form form
  | Eq form form

fun holds :: "(atom \<Rightarrow> bool) \<Rightarrow> form \<Rightarrow> bool" where
  "holds \<sigma> (Atom a) = \<sigma> a"
| "holds \<sigma> (Const b) = b"
| "holds \<sigma> (And p q) = (holds \<sigma> p \<and> holds \<sigma> q)"
| "holds \<sigma> (Or p q) = (holds \<sigma> p \<or> holds \<sigma> q)"
| "holds \<sigma> (Not_z3 p) = (\<not> holds \<sigma> p)"
| "holds \<sigma> (Xor p q) = (holds \<sigma> p \<noteq> holds \<sigma> q)"
| "holds \<sigma> (Eq p q) = (holds \<sigma> p = holds \<sigma> q)"

text \<open>An assignment satisfies the solver's assertions when every one of them holds.\<close>

definition satisfies :: "(atom \<Rightarrow> bool) \<Rightarrow> form list \<Rightarrow> bool" where
  "satisfies \<sigma> fs = list_all (holds \<sigma>) fs"

text \<open>The arrays \<^verbatim>\<open>c\<close>, \<^verbatim>\<open>v\<close> and \<^verbatim>\<open>n\<close> (lines 74 to 90); \<^verbatim>\<open>range\<close> of a negative count is empty.\<close>

definition c_array :: "int \<Rightarrow> atom list list" where
  "c_array num_gates = map (\<lambda>i. map (\<lambda>j. C i j) [0..<nat num_gates]) [0..<nat num_gates]"

definition v_array :: "int \<Rightarrow> nat \<Rightarrow> atom list list" where
  "v_array num_gates num_rows = map (\<lambda>i. map (\<lambda>j. V i j) [0..<num_rows]) [0..<nat num_gates]"

definition n_array :: "int \<Rightarrow> atom list" where
  "n_array num_gates = map N [0..<nat num_gates]"

text \<open>Lines 95 to 97: a gate is not controlled on itself or on a gate above it.\<close>

definition acyclicity :: "atom list list \<Rightarrow> int \<Rightarrow> form list res" where
  "acyclicity c num_gates =
     for_each [0..<nat num_gates] (\<lambda>i.
       for_each [i..<nat num_gates] (\<lambda>j.
         bnd (py_index2 c (int i) (int j)) (\<lambda>cij.
           Inr [Eq (Atom cij) (Const False)])))"

text \<open>Lines 103 to 111: the last \<^verbatim>\<open>num_output_bits\<close> gates must match the table.\<close>

definition output_pinning ::
    "int list list \<Rightarrow> atom list list \<Rightarrow> int \<Rightarrow> nat \<Rightarrow> nat \<Rightarrow> form list res" where
  "output_pinning truth_table v num_gates num_output_bits num_rows =
     for_each (py_range (num_gates - int num_output_bits) num_gates) (\<lambda>gate.
       for_each [0..<num_rows] (\<lambda>inp.
         bnd (py_index2 truth_table (int inp) (gate - (num_gates - int num_output_bits)))
           (\<lambda>table_out.
         if table_out = 0
         then bnd (py_index2 v gate (int inp)) (\<lambda>a. Inr [Eq (Atom a) (Const False)])
         else bnd (py_index2 v gate (int inp)) (\<lambda>a. Inr [Eq (Atom a) (Const True)]))))"

text \<open>
  Lines 127 to 130: \<^verbatim>\<open>temp\<close> starts as \<^verbatim>\<open>True\<close> and takes one conjunct for each gate below
  gate \<open>i\<close>, nearest first.
\<close>

definition temp_loop :: "atom list list \<Rightarrow> atom list list \<Rightarrow> nat \<Rightarrow> nat \<Rightarrow> form res" where
  "temp_loop c v i inp =
     fold_res (\<lambda>count temp.
         bnd (py_index2 v (int i - int count) (int inp)) (\<lambda>vv.
         bnd (py_index2 c (int i) (int i - int count)) (\<lambda>cc.
           Inr (And temp (Or (Atom vv) (Not_z3 (Atom cc)))))))
       [1..<i + 1] (Const True)"

text \<open>Lines 122 to 140: the gate evolution clause of every gate on every input.\<close>

definition gate_evolution ::
    "atom list list \<Rightarrow> atom list list \<Rightarrow> atom list \<Rightarrow> int \<Rightarrow> nat \<Rightarrow> nat \<Rightarrow> form list res" where
  "gate_evolution c v n num_gates num_rows num_input_bits =
     for_each [0..<nat num_gates] (\<lambda>i.
       for_each [0..<num_rows] (\<lambda>inp.
         bnd (py_index n (int i)) (\<lambda>ni.
         bnd (temp_loop c v i inp) (\<lambda>temp.
         bnd (if i < num_input_bits
              then bnd (py_index (zfill num_input_bits (bin_digits inp)) (int i)) (\<lambda>ch.
                     Inr (Xor (Xor (Atom ni) temp) (Const (ch = CHR ''1''))))
              else Inr (Xor (Atom ni) temp)) (\<lambda>clause.
         bnd (py_index2 v (int i) (int inp)) (\<lambda>vi.
           Inr [Eq (Atom vi) clause]))))))"

text \<open>
  Lines 59 to 140 of \<^verbatim>\<open>solve_table\<close>: from the table read from the file and the gate count to
  the assertions of the solver, in the order they are added. \<^verbatim>\<open>truth_table[0]\<close> raises on a
  table with no row.
\<close>

definition encode :: "int list list \<Rightarrow> int \<Rightarrow> form list res" where
  "encode truth_table num_gates =
     (case truth_table of
        [] \<Rightarrow> Inl IndexError
      | row0 # _ \<Rightarrow>
          let num_rows = length truth_table;
              num_cols = length row0;
              num_output_bits = num_cols;
              num_input_bits = ceil_log2 num_rows;
              c = c_array num_gates;
              v = v_array num_gates num_rows;
              n = n_array num_gates
          in bnd (acyclicity c num_gates) (\<lambda>fs1.
             bnd (output_pinning truth_table v num_gates num_output_bits num_rows) (\<lambda>fs2.
             bnd (gate_evolution c v n num_gates num_rows num_input_bits) (\<lambda>fs3.
               Inr (fs1 @ fs2 @ fs3)))))"

section \<open>The solver call and the result file\<close>

text \<open>
  What the program does to the outside is kept in a \<open>world\<close>: the text files by name, each the
  list of its lines (a name with no file is \<open>None\<close>); for each name the exception that opening
  it for writing raises (\<open>None\<close> when it can be opened: an empty name or a name in a missing
  directory raises FileNotFoundError, a directory IsADirectoryError, a protected file
  PermissionError); the lines printed so far; and a log of the calls made of \<^verbatim>\<open>solve_table\<close>,
  of the oracle (\<^verbatim>\<open>s.check()\<close>) and of \<^verbatim>\<open>draw_circ\<close>, kept so that "is not invoked" can be
  stated.
\<close>

datatype call = Call_solve_table | Call_oracle | Call_draw_circ

record world =
  files :: "string \<Rightarrow> string list option"
  write_error :: "string \<Rightarrow> pyerror option"
  stdout :: "string list"
  calls :: "call list"

text \<open>
  What the program takes from outside itself: \<open>pd_read_csv\<close> is lines 55 and 56, the table
  pandas reads from the lines of the file with the first column dropped, or the exception
  raised; its cells are integers, which \<^verbatim>\<open>int(...)\<close> in lines 63 to 65 leaves as they are;
  \<open>z3_check\<close> is \<^verbatim>\<open>s.check()\<close> with
  \<^verbatim>\<open>s.model()\<close>: \<open>None\<close> for unsat, otherwise the declarations of the model in the order the
  solver lists them, each with its value; \<open>elapsed_time\<close> is the printed duration.
\<close>

record env =
  pd_read_csv :: "string list \<Rightarrow> int list list res"
  z3_check :: "form list \<Rightarrow> (atom \<times> bool) list option"
  elapsed_time :: string

text \<open>\<^verbatim>\<open>print(s)\<close> and entering a function.\<close>

definition print :: "string \<Rightarrow> world \<Rightarrow> world" where
  "print s w = w\<lparr>stdout := stdout w @ [s]\<rparr>"

definition enter :: "call \<Rightarrow> world \<Rightarrow> world" where
  "enter c w = w\<lparr>calls := calls w @ [c]\<rparr>"

text \<open>
  \<^verbatim>\<open>open(name, "w")\<close> (or \<^verbatim>\<open>"w+"\<close>), the writes and \<^verbatim>\<open>close()\<close>: when the name cannot be
  opened the exception is raised and no file changes; otherwise the file holds the lines written
  and nothing else.
\<close>

definition write_file :: "string \<Rightarrow> string list \<Rightarrow> world \<Rightarrow> world res" where
  "write_file name ls w =
     (case write_error w name of
        Some e \<Rightarrow> Inl e
      | None \<Rightarrow> Inr (w\<lparr>files := (files w)(name \<mapsto> ls)\<rparr>))"

text \<open>
  \<^verbatim>\<open>int(s)\<close> on an ASCII string: white space around (space, tab, line feed, vertical tab, form
  feed, carriage return), an optional sign, then decimal digits, single underscores allowed
  between digits; anything else raises ValueError.
\<close>

definition is_space :: "char \<Rightarrow> bool" where
  "is_space ch = (ch \<in> set [CHR '' '', CHR 0x09, CHR 0x0A, CHR 0x0B, CHR 0x0C, CHR 0x0D])"

definition strip :: "string \<Rightarrow> string" where
  "strip s = rev (dropWhile is_space (rev (dropWhile is_space s)))"

definition digit_value :: "char \<Rightarrow> nat option" where
  "digit_value ch = (if ch \<in> set ''0123456789'' then Some (of_char ch - 48) else None)"

fun parse_digits :: "string \<Rightarrow> nat \<Rightarrow> bool \<Rightarrow> nat res" where
  "parse_digits [] acc after_digit = (if after_digit then Inr acc else Inl ValueError)"
| "parse_digits (ch # s) acc after_digit =
     (case digit_value ch of
        Some d \<Rightarrow> parse_digits s (10 * acc + d) True
      | None \<Rightarrow>
          if ch = CHR ''_'' \<and> after_digit then parse_digits s acc False else Inl ValueError)"

definition py_int :: "string \<Rightarrow> int res" where
  "py_int s =
     (case strip s of
        [] \<Rightarrow> Inl ValueError
      | ch # rest \<Rightarrow>
          if ch = CHR ''-'' then bnd (parse_digits rest 0 False) (\<lambda>n. Inr (- int n))
          else if ch = CHR ''+'' then bnd (parse_digits rest 0 False) (\<lambda>n. Inr (int n))
          else bnd (parse_digits (ch # rest) 0 False) (\<lambda>n. Inr (int n)))"

text \<open>
  Lines 148 to 153: one line for each declaration \<open>d\<close> of the model with
  \<^verbatim>\<open>str(model[d]) == "True" and not "v" in str(d)\<close>.
\<close>

definition str_bool :: "bool \<Rightarrow> string" where
  "str_bool b = (if b then ''True'' else ''False'')"

definition model_lines :: "(atom \<times> bool) list \<Rightarrow> string list" where
  "model_lines model =
     concat (map (\<lambda>(d, value).
        if str_bool value = ''True'' \<and> \<not> CHR ''v'' \<in> set (atom_name d)
        then [atom_name d] else []) model)"

text \<open>
  \<^verbatim>\<open>solve_table\<close> (lines 50 to 158). The result is the tuple returned or the exception raised,
  with the world as the call leaves it. The prints with a trailing newline give an empty line.
  After a SAT answer, \<^verbatim>\<open>open(out_file, "w+")\<close> at line 148 may raise: then nothing is written
  and the exception leaves \<^verbatim>\<open>solve_table\<close>.
\<close>

definition solve_table ::
    "env \<Rightarrow> string \<Rightarrow> string \<Rightarrow> string \<Rightarrow> world \<Rightarrow> (bool \<times> nat \<times> nat) res \<times> world" where
  "solve_table env filename num_gates out_file w0 =
     (let w1 = print ''Reading csv File...'' (enter Call_solve_table w0) in
      case files w1 filename of
        None \<Rightarrow> (Inl FileNotFoundError, w1)
      | Some content \<Rightarrow>
     (case pd_read_csv env content of
        Inl e \<Rightarrow> (Inl e, w1)
      | Inr truth_table \<Rightarrow>
     (case py_int num_gates of
        Inl e \<Rightarrow> (Inl e, w1)
      | Inr num_gates' \<Rightarrow>
     (case truth_table of
        [] \<Rightarrow> (Inl IndexError, w1)
      | row0 # _ \<Rightarrow>
         (let num_rows = length truth_table;
              num_output_bits = length row0;
              num_input_bits = ceil_log2 num_rows;
              w2 = print '''' (print ''Adding constraints...'' (print ''Setting up arrays...'' w1))
          in
          case encode truth_table num_gates' of
            Inl e \<Rightarrow> (Inl e, w2)
          | Inr assertions \<Rightarrow>
             (let w3 = enter Call_oracle (print '''' (print ''Checking satisfiability...'' w2)) in
              case z3_check env assertions of
                Some model \<Rightarrow>
                 (let w4 = print ''Model is satisfiable!'' w3 in
                  case write_file out_file (model_lines model) w4 of
                    Inl e \<Rightarrow> (Inl e, w4)
                  | Inr w5 \<Rightarrow> (Inr (True, num_input_bits, num_output_bits), w5))
              | None \<Rightarrow> (Inr (False, 0, 0), print ''Model is not satisfiable'' w3)))))))"

section \<open>The circuit renderer\<close>

text \<open>The symbols of lines 43 to 45; a cell of the matrix is one character.\<close>

definition CONTROL_DOT :: char where "CONTROL_DOT = CHR ''o''"
definition NOT_GATE :: char where "NOT_GATE = CHR ''X''"
definition PIPE :: char where "PIPE = CHR ''|''"

text \<open>\<^verbatim>\<open>s.split(sep)\<close> for a separator of one character.\<close>

fun split_on :: "char \<Rightarrow> string \<Rightarrow> string list" where
  "split_on sep [] = [[]]"
| "split_on sep (ch # s) =
     (if ch = sep then [] # split_on sep s
      else (case split_on sep s of [] \<Rightarrow> [[ch]] | w # ws \<Rightarrow> (ch # w) # ws))"

text \<open>\<^verbatim>\<open>int(line.split('_')[k])\<close>.\<close>

definition line_index :: "string \<Rightarrow> int \<Rightarrow> int res" where
  "line_index line k = bnd (py_index (split_on (CHR ''_'') line) k) py_int"

text \<open>\<^verbatim>\<open>[i for i in data if i[0] == ch]\<close>; \<^verbatim>\<open>i[0]\<close> raises on an empty line.\<close>

definition starting_with :: "char \<Rightarrow> string list \<Rightarrow> string list res" where
  "starting_with ch data =
     for_each data (\<lambda>i. bnd (py_index i 0) (\<lambda>first. Inr (if first = ch then [i] else [])))"

text \<open>\<^verbatim>\<open>max(xs)\<close>, which raises ValueError on an empty list.\<close>

definition py_max :: "int list \<Rightarrow> int res" where
  "py_max xs = (case xs of [] \<Rightarrow> Inl ValueError | x # rest \<Rightarrow> Inr (fold max rest x))"

text \<open>\<^verbatim>\<open>o_above\<close> (lines 262 to 266): is there a control dot above cell \<open>(j, i)\<close>?\<close>

fun o_above_loop :: "char list list \<Rightarrow> int list \<Rightarrow> int \<Rightarrow> bool res" where
  "o_above_loop circ [] i = Inr False"
| "o_above_loop circ (y # ys) i =
     bnd (py_index2 circ y i) (\<lambda>cell.
       if cell = CONTROL_DOT then Inr True else o_above_loop circ ys i)"

definition o_above :: "char list list \<Rightarrow> int \<Rightarrow> int \<Rightarrow> bool res" where
  "o_above circ j i = o_above_loop circ (py_range 0 j) i"

text \<open>\<^verbatim>\<open>[int(i.split('_')[1]) for i in lines]\<close>\<close>

definition parsed :: "string list \<Rightarrow> int list res" where
  "parsed lines = for_each lines (\<lambda>i. bnd (line_index i 1) (\<lambda>k. Inr [k]))"

text \<open>
  Lines 167 to 204 of \<^verbatim>\<open>draw_circ\<close>, before the output file is opened: the sorted lines, the
  dimension \<open>n\<close>, and the matrix after the NOTs of column 0, the diagonal, the control dots and
  the pipes. The result is \<open>n\<close>, the matrix and the list \<^verbatim>\<open>nots\<close>.
\<close>

definition build_circ :: "string list \<Rightarrow> (int \<times> char list list \<times> string list) res" where
  "build_circ lines =
     (let data = sort lines in
      bnd (starting_with (CHR ''n'') data) (\<lambda>nots.
      bnd (starting_with (CHR ''c'') data) (\<lambda>cs.
      bnd (parsed cs) (\<lambda>parsed_cs.
      bnd (parsed data) (\<lambda>parsed_all.
      bnd (py_max parsed_all) (\<lambda>m.
      let n = m + 1;
          circ0 = replicate (nat n) (replicate (nat n) (CHR ''-''))
      in
      bnd (fold_res (\<lambda>line circ.
             bnd (line_index line 1) (\<lambda>parsed_not. py_update2 circ parsed_not 0 NOT_GATE))
           nots circ0) (\<lambda>circ1.
      bnd (fold_res (\<lambda>i circ.
             fold_res (\<lambda>j circ. if i = j then py_update2 circ i j NOT_GATE else Inr circ)
               (py_range 0 n) circ)
           (py_range 0 n) circ1) (\<lambda>circ2.
      bnd (fold_res (\<lambda>line circ.
             bnd (line_index line 1) (\<lambda>x.
             bnd (line_index line 2) (\<lambda>y. py_update2 circ y x CONTROL_DOT)))
           cs circ2) (\<lambda>circ3.
      bnd (fold_res (\<lambda>i circ.
             fold_res (\<lambda>j circ.
                 bnd (py_index2 circ j i) (\<lambda>cell.
                   if cell = CHR ''-''
                   then bnd (o_above circ j i) (\<lambda>above.
                          if above then py_update2 circ j i PIPE else Inr circ)
                   else Inr circ))
               (py_range 1 i) circ)
           (py_range 1 n) circ3) (\<lambda>circ4.
        Inr (n, circ4, nots)))))))))))"

text \<open>A matrix of \<open>m\<close> rows of \<open>m\<close> cells.\<close>

definition square :: "nat \<Rightarrow> 'a list list \<Rightarrow> bool" where
  "square m circ = (length circ = m \<and> list_all (\<lambda>row. length row = m) circ)"

text \<open>Lines 210 to 215: the tag written before line \<open>i\<close>.\<close>

definition role_tag :: "int \<Rightarrow> int \<Rightarrow> int \<Rightarrow> int \<Rightarrow> string" where
  "role_tag n num_in num_out i =
     (if i < num_in then ''|i> ''
      else if i \<ge> n - num_out then ''|o> ''
      else ''|a> '')"

text \<open>Lines 208 to 221: one line of the file for each row of the matrix.\<close>

definition grid_lines :: "int \<Rightarrow> char list list \<Rightarrow> int \<Rightarrow> int \<Rightarrow> string list res" where
  "grid_lines n circ num_in num_out =
     for_each (py_range 0 n) (\<lambda>i.
       bnd (for_each (py_range 0 n) (\<lambda>j.
              bnd (py_index2 circ i j) (\<lambda>cell. Inr [CHR ''-'', cell, CHR ''-'']))) (\<lambda>cells.
         Inr [role_tag n num_in num_out i @ cells]))"

text \<open>
  Lines 229 to 250: \<^verbatim>\<open>gate_dict\<close> is a dict; its items are kept in insertion order. \<open>bump\<close>
  is lines 241 to 244.
\<close>

definition bump :: "string \<Rightarrow> (string \<times> nat) list \<Rightarrow> (string \<times> nat) list" where
  "bump gate_name gate_dict =
     (case map_of gate_dict gate_name of
        Some _ \<Rightarrow> map (\<lambda>(k, count). if k = gate_name then (k, count + 1) else (k, count)) gate_dict
      | None \<Rightarrow> gate_dict @ [(gate_name, 1)])"

definition count_controls :: "int \<Rightarrow> char list list \<Rightarrow> int \<Rightarrow> nat res" where
  "count_controls n circ i =
     fold_res (\<lambda>j num_os.
         bnd (py_index2 circ j i) (\<lambda>cell.
           Inr (if cell = CONTROL_DOT then num_os + 1 else num_os)))
       (py_range 0 n) 0"

definition gate_counts :: "int \<Rightarrow> char list list \<Rightarrow> string list \<Rightarrow> (string \<times> nat) list res" where
  "gate_counts n circ nots =
     bnd (fold_res (\<lambda>i gate_dict.
            bnd (count_controls n circ i) (\<lambda>num_os.
              Inr (bump (replicate num_os (CHR ''C'') @ ''NOT'') gate_dict)))
          (py_range 1 n) []) (\<lambda>gate_dict.
       Inr (case map_of gate_dict ''NOT'' of
              Some _ \<Rightarrow> map (\<lambda>(k, count). if k = ''NOT'' then (k, count + length nots)
                                          else (k, count)) gate_dict
            | None \<Rightarrow> gate_dict @ [(''NOT'', length nots)]))"

text \<open>
  Lines 252 to 255: the items sorted by count, largest first; Python's sort is stable also with
  \<^verbatim>\<open>reverse=True\<close>, as \<open>sort_key\<close> is.
\<close>

definition count_lines :: "(string \<times> nat) list \<Rightarrow> string list" where
  "count_lines gate_dict =
     map (\<lambda>pair. fst pair @ '' gates: '' @ str_nat (snd pair))
       (sort_key (\<lambda>x. - int (snd x)) gate_dict)"

text \<open>Lines 207 to 255: everything written to the output file.\<close>

definition file_lines ::
    "int \<Rightarrow> char list list \<Rightarrow> string list \<Rightarrow> int \<Rightarrow> int \<Rightarrow> string list res" where
  "file_lines n circ nots num_in num_out =
     bnd (grid_lines n circ num_in num_out) (\<lambda>rows.
     bnd (gate_counts n circ nots) (\<lambda>gate_dict.
       Inr (rows @ ['''', '''', ''===Gate Counts===='' ] @ count_lines gate_dict)))"

text \<open>The lines \<^verbatim>\<open>draw_circ\<close> writes for the lines it reads.\<close>

definition render :: "string list \<Rightarrow> int \<Rightarrow> int \<Rightarrow> string list res" where
  "render lines num_in num_out =
     bnd (build_circ lines) (\<lambda>(n, circ, nots). file_lines n circ nots num_in num_out)"

text \<open>
  \<^verbatim>\<open>draw_circ\<close> (lines 163 to 258). The output file is opened at line 207, and so emptied,
  only after the matrix is built; when it cannot be opened the exception is raised and no file
  changes. An exception while the lines are written would leave the file opened and emptied.
\<close>

definition draw_circ :: "string \<Rightarrow> string \<Rightarrow> int \<Rightarrow> int \<Rightarrow> world \<Rightarrow> unit res \<times> world" where
  "draw_circ infile outfile num_in num_out w0 =
     (let w1 = enter Call_draw_circ w0 in
      case files w1 infile of
        None \<Rightarrow> (Inl FileNotFoundError, w1)
      | Some lines \<Rightarrow>
     (case build_circ lines of
        Inl e \<Rightarrow> (Inl e, w1)
      | Inr (n, circ, nots) \<Rightarrow>
     (case file_lines n circ nots num_in num_out of
        Inl e \<Rightarrow>
         (case write_file outfile [] w1 of
            Inl e' \<Rightarrow> (Inl e', w1)
          | Inr w2 \<Rightarrow> (Inl e, w2))
      | Inr ls \<Rightarrow>
         (case write_file outfile ls w1 of
            Inl e' \<Rightarrow> (Inl e', w1)
          | Inr w2 \<Rightarrow> (Inr (), print ''Drawn circuit to file.'' w2)))))"

section \<open>The command line\<close>

text \<open>\<^verbatim>\<open>os.path.isfile(name)\<close> and \<^verbatim>\<open>s.endswith(suffix)\<close>.\<close>

definition isfile :: "world \<Rightarrow> string \<Rightarrow> bool" where
  "isfile w name = (files w name \<noteq> None)"

definition endswith :: "string \<Rightarrow> string \<Rightarrow> bool" where
  "endswith s suffix = (length suffix \<le> length s \<and> drop (length s - length suffix) s = suffix)"

text \<open>\<^verbatim>\<open>main\<close> (lines 269 to 295); \<open>argv\<close> is \<^verbatim>\<open>sys.argv\<close>, the program's name first.\<close>

definition main :: "env \<Rightarrow> string list \<Rightarrow> world \<Rightarrow> unit res \<times> world" where
  "main env argv w =
     (if length argv = 4 then
        let filename = argv ! 1; num_gates = argv ! 2; out_file = argv ! 3 in
        if isfile w filename then
          if endswith filename ''.csv'' then
            case solve_table env filename num_gates out_file w of
              (Inl e, w1) \<Rightarrow> (Inl e, w1)
            | (Inr (ret, num_in, num_out), w1) \<Rightarrow>
                let w2 = print (''Time elapsed: '' @ elapsed_time env @ '' seconds.'') w1 in
                if ret
                then draw_circ out_file out_file (int num_in) (int num_out)
                       (print ''Drawing circuit to file...'' w2)
                else (Inr (), w2)
          else (Inr (), print ''Please input a .csv file.'' w)
        else (Inr (), print ''That file does not exist.'' w)
      else (Inr (), print ''Please input the correct number of arguments.'' w))"

text \<open>
  The exit status of \<^verbatim>\<open>python csolver.py ...\<close>: 0 when \<^verbatim>\<open>main\<close> returns, 1 when an exception
  leaves it (the file never calls \<^verbatim>\<open>sys.exit\<close>).
\<close>

definition exit_status :: "unit res \<Rightarrow> nat" where
  "exit_status r = (case r of Inl _ \<Rightarrow> 1 | Inr _ \<Rightarrow> 0)"

section \<open>Worked examples\<close>

text \<open>
  An environment whose table reader and oracle give fixed answers, and a file system that holds
  the input table only and in which every name but the empty one can be opened for writing.
\<close>

definition open_error :: "string \<Rightarrow> pyerror option" where
  "open_error name = (if name = [] then Some FileNotFoundError else None)"

definition demo_env :: "int list list \<Rightarrow> (atom \<times> bool) list option \<Rightarrow> env" where
  "demo_env table answer =
     \<lparr>pd_read_csv = (\<lambda>content. Inr table), z3_check = (\<lambda>assertions. answer),
      elapsed_time = ''0.01''\<rparr>"

definition demo_world :: "string list \<Rightarrow> world" where
  "demo_world content =
     \<lparr>files = [''table.csv'' \<mapsto> content], write_error = open_error, stdout = [], calls = []\<rparr>"

definition text_world :: world where
  "text_world =
     \<lparr>files = [''table.txt'' \<mapsto> [''0,1'']], write_error = open_error, stdout = [], calls = []\<rparr>"

definition empty_result_world :: world where
  "empty_result_world =
     \<lparr>files = [''output.txt'' \<mapsto> []], write_error = open_error, stdout = [], calls = []\<rparr>"

text \<open>The oracle's answer read as an assignment: an atom is true when the answer says so.\<close>

definition is_model_of :: "(atom \<times> bool) list \<Rightarrow> form list res \<Rightarrow> bool" where
  "is_model_of model r =
     (case r of Inl _ \<Rightarrow> False | Inr fs \<Rightarrow> satisfies (\<lambda>a. (a, True) \<in> set model) fs)"

text \<open>
  The table of a single NOT (input 0 gives 1, input 1 gives 0) on two gates: the assertions
  \<^verbatim>\<open>solve_table\<close> builds for it, an assignment that satisfies them, and the same as the
  answer of the oracle.
\<close>

definition not_gate_formula :: "form list" where
  "not_gate_formula =
     [Eq (Atom (C 0 0)) (Const False), Eq (Atom (C 0 1)) (Const False),
      Eq (Atom (C 1 1)) (Const False), Eq (Atom (V 1 0)) (Const True),
      Eq (Atom (V 1 1)) (Const False),
      Eq (Atom (V 0 0)) (Xor (Xor (Atom (N 0)) (Const True)) (Const False)),
      Eq (Atom (V 0 1)) (Xor (Xor (Atom (N 0)) (Const True)) (Const True)),
      Eq (Atom (V 1 0))
       (Xor (Atom (N 1)) (And (Const True) (Or (Atom (V 0 0)) (Not_z3 (Atom (C 1 0)))))),
      Eq (Atom (V 1 1))
       (Xor (Atom (N 1)) (And (Const True) (Or (Atom (V 0 1)) (Not_z3 (Atom (C 1 0))))))]"

definition not_gate_model :: "atom \<Rightarrow> bool" where
  "not_gate_model a = (a \<in> set [N 0, N 1, C 1 0, V 0 1, V 1 0])"

definition not_gate_answer :: "(atom \<times> bool) list" where
  "not_gate_answer =
     [(C 0 0, False), (C 0 1, False), (C 1 0, True), (C 1 1, False),
      (V 0 0, False), (V 0 1, True), (V 1 0, True), (V 1 1, False),
      (N 0, True), (N 1, True)]"

text \<open>One row with the two output columns 0 and 1, on one gate.\<close>

definition two_outputs_formula :: "form list" where
  "two_outputs_formula =
     [Eq (Atom (C 0 0)) (Const False), Eq (Atom (V 0 0)) (Const False),
      Eq (Atom (V 0 0)) (Const True),
      Eq (Atom (V 0 0)) (Xor (Atom (N 0)) (Const True))]"

text \<open>The identity table (input 0 gives 0, input 1 gives 1) on one gate, and a model of it.\<close>

definition identity_answer :: "(atom \<times> bool) list" where
  "identity_answer = [(N 0, True), (V 0 0, False), (V 0 1, True), (C 0 0, False)]"

text \<open>The constant table 1 on two rows and one gate: its assertions have no model.\<close>

definition const_one_formula :: "form list" where
  "const_one_formula =
     [Eq (Atom (C 0 0)) (Const False), Eq (Atom (V 0 0)) (Const True),
      Eq (Atom (V 0 1)) (Const True),
      Eq (Atom (V 0 0)) (Xor (Xor (Atom (N 0)) (Const True)) (Const False)),
      Eq (Atom (V 0 1)) (Xor (Xor (Atom (N 0)) (Const True)) (Const True))]"

text \<open>
  The table with the single row 1: on three gates, a model whose only true atom among \<open>c\<close>
  and \<open>n\<close> is \<open>n_0\<close>; on one gate, a model with no true atom among them.
\<close>

definition lone_not_answer :: "(atom \<times> bool) list" where
  "lone_not_answer =
     [(N 0, True), (N 1, False), (N 2, False),
      (V 0 0, False), (V 1 0, True), (V 2 0, True),
      (C 0 0, False), (C 0 1, False), (C 0 2, False),
      (C 1 0, False), (C 1 1, False), (C 1 2, False),
      (C 2 0, False), (C 2 1, False), (C 2 2, False)]"

definition no_gate_answer :: "(atom \<times> bool) list" where
  "no_gate_answer = [(N 0, False), (V 0 0, True), (C 0 0, False)]"

section \<open>Facts about the Python layer\<close>

lemma bnd_Inr_iff: "bnd m f = Inr y \<longleftrightarrow> (\<exists>x. m = Inr x \<and> f x = Inr y)"
  by (cases m) auto

lemma for_each_member:
  "for_each xs body = Inr zs \<Longrightarrow> x \<in> set xs \<Longrightarrow> \<exists>ys. body x = Inr ys \<and> set ys \<subseteq> set zs"
proof (induction xs arbitrary: zs)
  case Nil
  then show ?case by simp
next
  case (Cons a xs)
  from Cons.prems(1) obtain ys ws where
    a: "body a = Inr ys" and rest: "for_each xs body = Inr ws" and zs: "zs = ys @ ws"
    by (auto simp: bnd_Inr_iff)
  show ?case
  proof (cases "x = a")
    case True
    with a zs show ?thesis by auto
  next
    case False
    with Cons.prems(2) have "x \<in> set xs" by simp
    from Cons.IH [OF rest this] zs show ?thesis by auto
  qed
qed

lemma py_index_nonneg:
  "0 \<le> i \<Longrightarrow> i < int (length xs) \<Longrightarrow> py_index xs i = Inr (xs ! nat i)"
  by (simp add: py_index_def)

lemma py_index_nat: "k < length xs \<Longrightarrow> py_index xs (int k) = Inr (xs ! k)"
  by (simp add: py_index_def)

lemma c_array_at:
  "i < nat num_gates \<Longrightarrow> j < nat num_gates \<Longrightarrow> py_index2 (c_array num_gates) (int i) (int j) = Inr (C i j)"
  by (simp add: py_index2_def c_array_def py_index_nat)

lemma v_array_at:
  "i < nat num_gates \<Longrightarrow> t < num_rows \<Longrightarrow>
   py_index2 (v_array num_gates num_rows) (int i) (int t) = Inr (V i t)"
  by (simp add: py_index2_def v_array_def py_index_nat)

lemma v_array_wrap:
  assumes "- num_gates \<le> gate" "gate < num_gates" "t < num_rows"
  shows "py_index2 (v_array num_gates num_rows) gate (int t) = Inr (V (nat (gate mod num_gates)) t)"
proof -
  from assms have pos: "0 < num_gates" by simp
  then have len: "int (length (v_array num_gates num_rows)) = num_gates"
    by (simp add: v_array_def)
  from pos have "nat (gate mod num_gates) < nat num_gates" by simp
  then have "v_array num_gates num_rows ! nat (gate mod num_gates) =
             map (V (nat (gate mod num_gates))) [0..<num_rows]"
    by (simp add: v_array_def)
  with assms len have "py_index (v_array num_gates num_rows) gate =
               Inr (map (V (nat (gate mod num_gates))) [0..<num_rows])"
    by (simp add: py_index_def)
  with assms(3) show ?thesis by (simp add: py_index2_def py_index_nat)
qed

lemma v_array_lookup:
  assumes "py_index2 (v_array num_gates num_rows) gate (int t) = Inr a" "t < num_rows"
  shows "- num_gates \<le> gate \<and> gate < num_gates \<and> a = V (nat (gate mod num_gates)) t"
proof -
  from assms(1) obtain row where "py_index (v_array num_gates num_rows) gate = Inr row"
    by (auto simp: py_index2_def bnd_Inr_iff)
  then have "- int (nat num_gates) \<le> gate" "gate < int (nat num_gates)"
    by (auto simp: py_index_def v_array_def split: if_splits)
  then have range: "- num_gates \<le> gate" "gate < num_gates" by linarith+
  from v_array_wrap [OF range assms(2)] assms(1) range show ?thesis by simp
qed

lemma n_array_at: "i < nat num_gates \<Longrightarrow> py_index (n_array num_gates) (int i) = Inr (N i)"
  by (simp add: n_array_def py_index_nat)

lemma satisfies_member: "satisfies \<sigma> fs \<Longrightarrow> f \<in> set fs \<Longrightarrow> holds \<sigma> f"
  by (simp add: satisfies_def list_all_iff)

lemma encode_parts:
  assumes "encode truth_table num_gates = Inr fs"
  obtains row0 rest fs1 fs2 fs3 where
    "truth_table = row0 # rest"
    "acyclicity (c_array num_gates) num_gates = Inr fs1"
    "output_pinning truth_table (v_array num_gates (length truth_table)) num_gates
       (length row0) (length truth_table) = Inr fs2"
    "gate_evolution (c_array num_gates) (v_array num_gates (length truth_table))
       (n_array num_gates) num_gates (length truth_table) (ceil_log2 (length truth_table)) = Inr fs3"
    "fs = fs1 @ fs2 @ fs3"
  using assms
  by (cases truth_table) (auto simp: encode_def Let_def bnd_Inr_iff)

lemma digit_char_0: "digit_char 0 = CHR ''0''" by (simp add: digit_char_def)
lemma digit_char_1: "digit_char (Suc 0) = CHR ''1''" by (simp add: digit_char_def)

lemma digit_char_bit: "digit_char (t mod 2) = (if odd t then CHR ''1'' else CHR ''0'')"
  by (cases "odd t") (auto simp: digit_char_0 digit_char_1 odd_iff_mod_2_eq_one)

lemma length_bin_digits: "0 < w \<Longrightarrow> t < 2 ^ w \<Longrightarrow> length (bin_digits t) \<le> w"
proof (induction t arbitrary: w rule: bin_digits.induct)
  case (1 n)
  show ?case
  proof (cases "n < 2")
    case True
    with "1.prems" show ?thesis by (simp add: bin_digits.simps [of n])
  next
    case False
    then obtain w' where w: "w = Suc w'" using "1.prems" by (cases w) auto
    with False "1.prems" have "0 < w'" by (cases w') auto
    moreover from w "1.prems" have "n div 2 < 2 ^ w'" by auto
    ultimately have "length (bin_digits (n div 2)) \<le> w'" using "1.IH" False by blast
    with False w show ?thesis by (simp add: bin_digits.simps [of n])
  qed
qed

lemma length_zfill_bin: "0 < w \<Longrightarrow> t < 2 ^ w \<Longrightarrow> length (zfill w (bin_digits t)) = w"
  using length_bin_digits [of w t] by (simp add: zfill_def)

lemma zfill_bin_Suc:
  assumes "0 < w" "t < 2 ^ Suc w"
  shows "zfill (Suc w) (bin_digits t) = zfill w (bin_digits (t div 2)) @ [digit_char (t mod 2)]"
proof (cases "t < 2")
  case True
  then have "bin_digits t = [digit_char t]" "bin_digits (t div 2) = [CHR ''0'']" "t mod 2 = t"
    by (simp_all add: bin_digits.simps [of t] bin_digits.simps [of 0] digit_char_0)
  moreover from assms(1) have "replicate w (CHR ''0'') = replicate (w - 1) (CHR ''0'') @ [CHR ''0'']"
    by (cases w) (simp_all add: replicate_append_same)
  ultimately show ?thesis by (simp add: zfill_def)
next
  case False
  from assms have "t div 2 < 2 ^ w" by auto
  then have "length (bin_digits (t div 2)) \<le> w" using assms(1) by (rule length_bin_digits [rotated])
  with False show ?thesis by (simp add: zfill_def bin_digits.simps [of t] Suc_diff_le)
qed

lemma zfill_bin_nth:
  "t < 2 ^ w \<Longrightarrow> i < w \<Longrightarrow>
   zfill w (bin_digits t) ! i = (if odd (t div 2 ^ (w - 1 - i)) then CHR ''1'' else CHR ''0'')"
proof (induction w arbitrary: t i)
  case 0
  then show ?case by simp
next
  case (Suc w)
  show ?case
  proof (cases "w = 0")
    case True
    with Suc.prems have "t < 2" "i = 0" by auto
    then show ?thesis using True
      by (auto simp: zfill_def bin_digits.simps [of t] digit_char_0 digit_char_1 elim: oddE)
  next
    case False
    then have w: "0 < w" by simp
    from Suc.prems have half: "t div 2 < 2 ^ w" by auto
    have split: "zfill (Suc w) (bin_digits t) = zfill w (bin_digits (t div 2)) @ [digit_char (t mod 2)]"
      using w Suc.prems(1) by (rule zfill_bin_Suc)
    have len: "length (zfill w (bin_digits (t div 2))) = w"
      using w half by (rule length_zfill_bin)
    show ?thesis
    proof (cases "i < w")
      case True
      have "t div 2 div 2 ^ (w - 1 - i) = t div 2 ^ (Suc w - 1 - i)"
      proof -
        have "Suc w - 1 - i = Suc (w - 1 - i)" using True by simp
        then show ?thesis by (simp add: div_mult2_eq)
      qed
      with Suc.IH [OF half True] split len True show ?thesis by (simp add: nth_append)
    next
      case False
      with Suc.prems have "i = w" by simp
      with split len show ?thesis by (simp add: nth_append digit_char_bit)
    qed
  qed
qed

lemma ceil_log2_bound: "n \<le> 2 ^ ceil_log2 n"
proof (induction n rule: ceil_log2.induct)
  case (1 n)
  show ?case
  proof (cases "n \<le> 1")
    case True
    then show ?thesis by (simp add: ceil_log2.simps [of n])
  next
    case False
    with "1.IH" have "(n + 1) div 2 \<le> 2 ^ ceil_log2 ((n + 1) div 2)" by simp
    moreover have "n \<le> 2 * ((n + 1) div 2)" by simp
    ultimately have "n \<le> 2 * 2 ^ ceil_log2 ((n + 1) div 2)" by linarith
    with False show ?thesis by (simp add: ceil_log2.simps [of n])
  qed
qed

lemma ceil_log2_least: "n \<le> 2 ^ k \<Longrightarrow> ceil_log2 n \<le> k"
proof (induction n arbitrary: k rule: ceil_log2.induct)
  case (1 n)
  show ?case
  proof (cases "n \<le> 1")
    case True
    then show ?thesis by (simp add: ceil_log2.simps [of n])
  next
    case False
    with "1.prems" obtain k' where k: "k = Suc k'" by (cases k) auto
    with "1.prems" have "(n + 1) div 2 \<le> 2 ^ k'" by auto
    with "1.IH" False have "ceil_log2 ((n + 1) div 2) \<le> k'" by blast
    with False k show ?thesis by (simp add: ceil_log2.simps [of n])
  qed
qed

lemma nat_less_int: "int i < num_gates \<Longrightarrow> i < nat num_gates"
  by simp

lemma acyclicity_member:
  assumes "acyclicity (c_array num_gates) num_gates = Inr fs1" "i \<le> j" "j < nat num_gates"
  shows "Eq (Atom (C i j)) (Const False) \<in> set fs1"
proof -
  from assms have i: "i \<in> set [0..<nat num_gates]" and j: "j \<in> set [i..<nat num_gates]"
    by simp_all
  from assms(1) have "for_each [0..<nat num_gates] (\<lambda>i.
       for_each [i..<nat num_gates] (\<lambda>j.
         bnd (py_index2 (c_array num_gates) (int i) (int j)) (\<lambda>cij.
           Inr [Eq (Atom cij) (Const False)]))) = Inr fs1"
    by (simp add: acyclicity_def)
  from for_each_member [OF this i] obtain ys where
    inner: "for_each [i..<nat num_gates] (\<lambda>j.
         bnd (py_index2 (c_array num_gates) (int i) (int j)) (\<lambda>cij.
           Inr [Eq (Atom cij) (Const False)])) = Inr ys" and sub: "set ys \<subseteq> set fs1"
    by blast
  from for_each_member [OF inner j] obtain zs where
    cell: "bnd (py_index2 (c_array num_gates) (int i) (int j)) (\<lambda>cij.
           Inr [Eq (Atom cij) (Const False)]) = Inr zs" and sub': "set zs \<subseteq> set ys"
    by blast
  from assms have "py_index2 (c_array num_gates) (int i) (int j) = Inr (C i j)"
    by (intro c_array_at) simp_all
  with cell have "zs = [Eq (Atom (C i j)) (Const False)]" by simp
  with sub sub' show ?thesis by auto
qed

lemma set_py_range: "set (py_range a b) = {a..<b}"
proof -
  have "(\<lambda>k. a + int k) ` {0..<nat (b - a)} = {a..<b}"
  proof (intro set_eqI iffI)
    fix x assume "x \<in> (\<lambda>k. a + int k) ` {0..<nat (b - a)}"
    then show "x \<in> {a..<b}" by auto
  next
    fix x assume x: "x \<in> {a..<b}"
    then have "x = a + int (nat (x - a))" "nat (x - a) \<in> {0..<nat (b - a)}" by auto
    then show "x \<in> (\<lambda>k. a + int k) ` {0..<nat (b - a)}" by (rule image_eqI)
  qed
  then show ?thesis by (simp add: py_range_def)
qed

lemma py_index_Inr_nonneg:
  "py_index xs k = Inr x \<Longrightarrow> 0 \<le> k \<Longrightarrow> nat k < length xs \<and> x = xs ! nat k"
  by (auto simp: py_index_def split: if_splits)

lemma output_pinning_member:
  assumes pin: "output_pinning truth_table (v_array num_gates num_rows) num_gates
                  num_output_bits num_rows = Inr fs2"
    and gate: "num_gates - int num_output_bits \<le> gate" "gate < num_gates"
    and t: "t < num_rows" "t < length truth_table"
  shows "- num_gates \<le> gate \<and>
         nat (gate - (num_gates - int num_output_bits)) < length (truth_table ! t) \<and>
         Eq (Atom (V (nat (gate mod num_gates)) t))
            (Const (truth_table ! t ! nat (gate - (num_gates - int num_output_bits)) \<noteq> 0)) \<in> set fs2"
proof -
  let ?k = "gate - (num_gates - int num_output_bits)"
  let ?v = "v_array num_gates num_rows"
  let ?cell = "\<lambda>gate inp.
         bnd (py_index2 truth_table (int inp) (gate - (num_gates - int num_output_bits)))
           (\<lambda>table_out.
         if table_out = 0
         then bnd (py_index2 ?v gate (int inp)) (\<lambda>a. Inr [Eq (Atom a) (Const False)])
         else bnd (py_index2 ?v gate (int inp)) (\<lambda>a. Inr [Eq (Atom a) (Const True)]))"
  from gate have g: "gate \<in> set (py_range (num_gates - int num_output_bits) num_gates)"
    by (simp add: set_py_range)
  from t have i: "t \<in> set [0..<num_rows]" by simp
  from pin have "for_each (py_range (num_gates - int num_output_bits) num_gates)
      (\<lambda>gate. for_each [0..<num_rows] (?cell gate)) = Inr fs2"
    by (simp add: output_pinning_def)
  from for_each_member [OF this g] obtain ys where
    inner: "for_each [0..<num_rows] (?cell gate) = Inr ys" and sub: "set ys \<subseteq> set fs2"
    by blast
  from for_each_member [OF inner i] obtain zs where
    cell: "?cell gate t = Inr zs" and sub': "set zs \<subseteq> set ys"
    by blast
  from cell obtain bit a where
    rd: "py_index2 truth_table (int t) ?k = Inr bit" and
    wr: "py_index2 ?v gate (int t) = Inr a" and
    zs: "zs = [Eq (Atom a) (Const (bit \<noteq> 0))]"
    by (auto simp: bnd_Inr_iff split: if_splits)
  from t(2) have "py_index truth_table (int t) = Inr (truth_table ! t)" by (rule py_index_nat)
  with rd have "py_index (truth_table ! t) ?k = Inr bit" by (simp add: py_index2_def)
  moreover from gate(1) have "0 \<le> ?k" by simp
  ultimately have "nat ?k < length (truth_table ! t) \<and> bit = truth_table ! t ! nat ?k"
    by (rule py_index_Inr_nonneg)
  then have bit: "nat ?k < length (truth_table ! t)" "bit = truth_table ! t ! nat ?k"
    by simp_all
  from v_array_lookup [OF wr t(1)] have line: "- num_gates \<le> gate"
    "a = V (nat (gate mod num_gates)) t" by simp_all
  with zs sub sub' bit show ?thesis by auto
qed

lemma temp_step:
  assumes "1 \<le> count" "count \<le> i" "i < nat num_gates" "t < num_rows"
  shows "bnd (py_index2 (v_array num_gates num_rows) (int i - int count) (int t)) (\<lambda>vv.
         bnd (py_index2 (c_array num_gates) (int i) (int i - int count)) (\<lambda>cc.
           Inr (And temp (Or (Atom vv) (Not_z3 (Atom cc))))))
       = Inr (And temp (Or (Atom (V (i - count) t)) (Not_z3 (Atom (C i (i - count))))))"
proof -
  from assms(2) have idx: "int i - int count = int (i - count)" by simp
  from assms have "py_index2 (v_array num_gates num_rows) (int (i - count)) (int t) = Inr (V (i - count) t)"
    by (intro v_array_at) simp_all
  moreover from assms have "py_index2 (c_array num_gates) (int i) (int (i - count)) = Inr (C i (i - count))"
    by (intro c_array_at) simp_all
  ultimately show ?thesis by (simp add: idx)
qed

lemma temp_fold:
  assumes "\<forall>count\<in>set counts. 1 \<le> count \<and> count \<le> i" "i < nat num_gates" "t < num_rows"
  shows "\<exists>P. fold_res (\<lambda>count temp.
         bnd (py_index2 (v_array num_gates num_rows) (int i - int count) (int t)) (\<lambda>vv.
         bnd (py_index2 (c_array num_gates) (int i) (int i - int count)) (\<lambda>cc.
           Inr (And temp (Or (Atom vv) (Not_z3 (Atom cc))))))) counts acc = Inr P \<and>
       (\<forall>\<sigma>. holds \<sigma> P =
          (holds \<sigma> acc \<and> (\<forall>count\<in>set counts. \<sigma> (V (i - count) t) \<or> \<not> \<sigma> (C i (i - count)))))"
  using assms(1)
proof (induction counts arbitrary: acc)
  case Nil
  then show ?case by simp
next
  case (Cons count counts)
  from Cons.prems have c: "1 \<le> count" "count \<le> i" and
    rest: "\<forall>count\<in>set counts. 1 \<le> count \<and> count \<le> i" by simp_all
  let ?acc = "And acc (Or (Atom (V (i - count) t)) (Not_z3 (Atom (C i (i - count)))))"
  from Cons.IH [OF rest, of ?acc] obtain P where
    P: "fold_res (\<lambda>count temp.
         bnd (py_index2 (v_array num_gates num_rows) (int i - int count) (int t)) (\<lambda>vv.
         bnd (py_index2 (c_array num_gates) (int i) (int i - int count)) (\<lambda>cc.
           Inr (And temp (Or (Atom vv) (Not_z3 (Atom cc))))))) counts ?acc = Inr P" and
    sem: "\<forall>\<sigma>. holds \<sigma> P =
          (holds \<sigma> ?acc \<and> (\<forall>count\<in>set counts. \<sigma> (V (i - count) t) \<or> \<not> \<sigma> (C i (i - count))))"
    by blast
  from temp_step [OF c assms(2) assms(3)] P
  have "fold_res (\<lambda>count temp.
         bnd (py_index2 (v_array num_gates num_rows) (int i - int count) (int t)) (\<lambda>vv.
         bnd (py_index2 (c_array num_gates) (int i) (int i - int count)) (\<lambda>cc.
           Inr (And temp (Or (Atom vv) (Not_z3 (Atom cc))))))) (count # counts) acc = Inr P"
    by simp
  moreover from sem have "\<forall>\<sigma>. holds \<sigma> P =
          (holds \<sigma> acc \<and> (\<forall>k\<in>set (count # counts). \<sigma> (V (i - k) t) \<or> \<not> \<sigma> (C i (i - k))))"
    by auto
  ultimately show ?case by blast
qed

lemma temp_loop_meaning:
  assumes "i < nat num_gates" "t < num_rows"
  shows "\<exists>P. temp_loop (c_array num_gates) (v_array num_gates num_rows) i t = Inr P \<and>
       (\<forall>\<sigma>. holds \<sigma> P = (\<forall>count\<in>{1..i}. \<sigma> (V (i - count) t) \<or> \<not> \<sigma> (C i (i - count))))"
proof -
  have "\<forall>count\<in>set [1..<i + 1]. 1 \<le> count \<and> count \<le> i" by auto
  from temp_fold [OF this assms, of "Const True"] obtain P where
    P: "temp_loop (c_array num_gates) (v_array num_gates num_rows) i t = Inr P" and
    sem: "\<forall>\<sigma>. holds \<sigma> P = (holds \<sigma> (Const True) \<and>
            (\<forall>count\<in>set [1..<i + 1]. \<sigma> (V (i - count) t) \<or> \<not> \<sigma> (C i (i - count))))"
    unfolding temp_loop_def by blast
  have eq: "set [1..<i + 1] = {1..i}" by auto
  from sem [unfolded eq] have "\<forall>\<sigma>. holds \<sigma> P = (\<forall>count\<in>{1..i}. \<sigma> (V (i - count) t) \<or> \<not> \<sigma> (C i (i - count)))"
    by simp
  with P show ?thesis by blast
qed

lemma bit_char_is_one: "((if b then CHR ''1'' else CHR ''0'') = CHR ''1'') = b"
  by simp

lemma input_bit_char:
  assumes "t < num_rows" "i < ceil_log2 num_rows"
  shows "py_index (zfill (ceil_log2 num_rows) (bin_digits t)) (int i) =
         Inr (if odd (t div 2 ^ (ceil_log2 num_rows - 1 - i)) then CHR ''1'' else CHR ''0'')"
proof -
  let ?w = "ceil_log2 num_rows"
  from assms(1) ceil_log2_bound [of num_rows] have t: "t < 2 ^ ?w" by simp
  from assms(2) have w: "0 < ?w" by simp
  from w t have "length (zfill ?w (bin_digits t)) = ?w" by (rule length_zfill_bin)
  with assms(2) have "py_index (zfill ?w (bin_digits t)) (int i) = Inr (zfill ?w (bin_digits t) ! i)"
    by (simp add: py_index_nat)
  with zfill_bin_nth [OF t assms(2)] show ?thesis by simp
qed

lemma gate_evolution_member:
  assumes ev: "gate_evolution (c_array num_gates) (v_array num_gates num_rows) (n_array num_gates)
                 num_gates num_rows (ceil_log2 num_rows) = Inr fs3"
    and i: "i < nat num_gates" and t: "t < num_rows"
  shows "\<exists>P. (\<forall>\<sigma>. holds \<sigma> P = (\<forall>count\<in>{1..i}. \<sigma> (V (i - count) t) \<or> \<not> \<sigma> (C i (i - count)))) \<and>
           (if i < ceil_log2 num_rows
            then Eq (Atom (V i t))
                   (Xor (Xor (Atom (N i)) P) (Const (odd (t div 2 ^ (ceil_log2 num_rows - 1 - i)))))
            else Eq (Atom (V i t)) (Xor (Atom (N i)) P)) \<in> set fs3"
proof -
  let ?c = "c_array num_gates" and ?v = "v_array num_gates num_rows" and ?n = "n_array num_gates"
  let ?w = "ceil_log2 num_rows"
  let ?cell = "\<lambda>i inp.
         bnd (py_index ?n (int i)) (\<lambda>ni.
         bnd (temp_loop ?c ?v i inp) (\<lambda>temp.
         bnd (if i < ?w
              then bnd (py_index (zfill ?w (bin_digits inp)) (int i)) (\<lambda>ch.
                     Inr (Xor (Xor (Atom ni) temp) (Const (ch = CHR ''1''))))
              else Inr (Xor (Atom ni) temp)) (\<lambda>clause.
         bnd (py_index2 ?v (int i) (int inp)) (\<lambda>vi.
           Inr [Eq (Atom vi) clause]))))"
  from i have im: "i \<in> set [0..<nat num_gates]" by simp
  from t have tm: "t \<in> set [0..<num_rows]" by simp
  from ev have "for_each [0..<nat num_gates] (\<lambda>i. for_each [0..<num_rows] (?cell i)) = Inr fs3"
    by (simp add: gate_evolution_def)
  from for_each_member [OF this im] obtain ys where
    inner: "for_each [0..<num_rows] (?cell i) = Inr ys" and sub: "set ys \<subseteq> set fs3"
    by blast
  from for_each_member [OF inner tm] obtain zs where
    cell: "?cell i t = Inr zs" and sub': "set zs \<subseteq> set ys"
    by blast
  from temp_loop_meaning [OF i t] obtain P where
    P: "temp_loop ?c ?v i t = Inr P" and
    sem: "\<forall>\<sigma>. holds \<sigma> P = (\<forall>count\<in>{1..i}. \<sigma> (V (i - count) t) \<or> \<not> \<sigma> (C i (i - count)))"
    by blast
  have n: "py_index ?n (int i) = Inr (N i)" using i by (rule n_array_at)
  have v: "py_index2 ?v (int i) (int t) = Inr (V i t)" using i t by (rule v_array_at)
  have "zs = [if i < ?w
            then Eq (Atom (V i t)) (Xor (Xor (Atom (N i)) P) (Const (odd (t div 2 ^ (?w - 1 - i)))))
            else Eq (Atom (V i t)) (Xor (Atom (N i)) P)]"
  proof (cases "i < ?w")
    case True
    from input_bit_char [OF t True] cell n P v True show ?thesis
      by (simp add: bit_char_is_one)
  next
    case False
    with cell n P v show ?thesis by simp
  qed
  with sub sub' have "(if i < ?w
            then Eq (Atom (V i t)) (Xor (Xor (Atom (N i)) P) (Const (odd (t div 2 ^ (?w - 1 - i)))))
            else Eq (Atom (V i t)) (Xor (Atom (N i)) P)) \<in> set fs3" by auto
  with sem show ?thesis by blast
qed

subsection \<open>The NOT example\<close>

lemma encode_not_gate: "encode [[1], [0]] 2 = Inr not_gate_formula"
  unfolding not_gate_formula_def by code_simp

lemma not_gate_model_satisfies: "satisfies not_gate_model not_gate_formula"
  by (simp add: satisfies_def not_gate_formula_def not_gate_model_def)

lemma ceil_log2_2: "ceil_log2 2 = 1" "ceil_log2 (Suc (Suc 0)) = Suc 0"
  by code_simp+

subsection \<open>The world\<close>

lemma files_print [simp]: "files (print s w) = files w"
  and write_error_print [simp]: "write_error (print s w) = write_error w"
  and calls_print [simp]: "calls (print s w) = calls w"
  and stdout_print [simp]: "stdout (print s w) = stdout w @ [s]"
  by (simp_all add: print_def)

lemma files_enter [simp]: "files (enter c w) = files w"
  and write_error_enter [simp]: "write_error (enter c w) = write_error w"
  and calls_enter [simp]: "calls (enter c w) = calls w @ [c]"
  and stdout_enter [simp]: "stdout (enter c w) = stdout w"
  by (simp_all add: enter_def)

lemma write_file_opened:
  "write_error w name = None \<Longrightarrow> write_file name ls w = Inr (w\<lparr>files := (files w)(name \<mapsto> ls)\<rparr>)"
  by (simp add: write_file_def)

lemma write_file_raises: "write_error w name = Some e \<Longrightarrow> write_file name ls w = Inl e"
  by (simp add: write_file_def)

lemma encode_Inr_nonempty: "encode truth_table num_gates = Inr fs \<Longrightarrow> \<exists>row0 rest. truth_table = row0 # rest"
  by (cases truth_table) (simp_all add: encode_def)

lemma solve_table_unsat:
  assumes "files w filename = Some content" "pd_read_csv env content = Inr truth_table"
    "py_int num_gates = Inr ng" "encode truth_table ng = Inr fs" "z3_check env fs = None"
  shows "solve_table env filename num_gates out_file w =
     (Inr (False, 0, 0),
      print ''Model is not satisfiable''
        (enter Call_oracle (print '''' (print ''Checking satisfiability...''
          (print '''' (print ''Adding constraints...'' (print ''Setting up arrays...''
            (print ''Reading csv File...'' (enter Call_solve_table w)))))))))"
proof -
  from assms(4) obtain row0 rest where "truth_table = row0 # rest"
    using encode_Inr_nonempty by blast
  with assms show ?thesis by (simp add: solve_table_def Let_def)
qed

lemma solve_table_sat:
  assumes "files w filename = Some content" "pd_read_csv env content = Inr truth_table"
    "py_int num_gates = Inr ng" "encode truth_table ng = Inr fs" "z3_check env fs = Some model"
    "write_error w out_file = None"
  shows "solve_table env filename num_gates out_file w =
     (Inr (True, ceil_log2 (length truth_table), length (hd truth_table)),
      (print ''Model is satisfiable!''
        (enter Call_oracle (print '''' (print ''Checking satisfiability...''
          (print '''' (print ''Adding constraints...'' (print ''Setting up arrays...''
            (print ''Reading csv File...'' (enter Call_solve_table w))))))))
      )\<lparr>files := (files w)(out_file \<mapsto> model_lines model)\<rparr>)"
proof -
  from assms(4) obtain row0 rest where "truth_table = row0 # rest"
    using encode_Inr_nonempty by blast
  with assms show ?thesis by (simp add: solve_table_def Let_def write_file_opened)
qed

lemma solve_table_sat_unwritable:
  assumes "files w filename = Some content" "pd_read_csv env content = Inr truth_table"
    "py_int num_gates = Inr ng" "encode truth_table ng = Inr fs" "z3_check env fs = Some model"
    "write_error w out_file = Some e"
  shows "solve_table env filename num_gates out_file w =
     (Inl e,
      print ''Model is satisfiable!''
        (enter Call_oracle (print '''' (print ''Checking satisfiability...''
          (print '''' (print ''Adding constraints...'' (print ''Setting up arrays...''
            (print ''Reading csv File...'' (enter Call_solve_table w)))))))))"
proof -
  from assms(4) obtain row0 rest where "truth_table = row0 # rest"
    using encode_Inr_nonempty by blast
  with assms show ?thesis by (simp add: solve_table_def Let_def write_file_raises)
qed

subsection \<open>The examples\<close>

lemma encode_const_one: "encode [[1], [1]] 1 = Inr const_one_formula"
  unfolding const_one_formula_def by code_simp

lemma const_one_unsat: "\<not> satisfies \<sigma> const_one_formula"
  by (auto simp: satisfies_def const_one_formula_def)

lemma py_int_1: "py_int ''1'' = Inr 1"
  by code_simp

lemma table_csv_ends: "endswith ''table.csv'' ''.csv''"
  by (simp add: endswith_def)

subsection \<open>Atom names\<close>

lemma digit_cases:
  "d < 10 \<Longrightarrow> d = 0 \<or> d = 1 \<or> d = 2 \<or> d = 3 \<or> d = 4 \<or> d = 5 \<or> d = 6 \<or> d = 7 \<or> d = 8 \<or> d = (9::nat)"
  by arith

lemma digit_char_in: "d < 10 \<Longrightarrow> digit_char d \<in> set ''0123456789''"
  by (drule digit_cases) (auto simp: digit_char_def)

lemma set_str_nat: "set (str_nat n) \<subseteq> set ''0123456789''"
proof (induction n rule: str_nat.induct)
  case (1 n)
  show ?case
  proof (cases "n < 10")
    case True
    with digit_char_in [of n] show ?thesis by (simp add: str_nat.simps [of n])
  next
    case False
    have "n mod 10 < 10" by simp
    from digit_char_in [OF this] "1.IH" False show ?thesis
      by (simp add: str_nat.simps [of n])
  qed
qed

lemma str_nat_no_v: "CHR ''v'' \<notin> set (str_nat n)"
  using set_str_nat [of n] by auto

lemma str_nat_no_underscore: "CHR ''_'' \<notin> set (str_nat n)"
  using set_str_nat [of n] by auto

lemma v_in_atom_name: "CHR ''v'' \<in> set (atom_name a) \<longleftrightarrow> is_v a"
  by (cases a) (simp_all add: str_nat_no_v)

lemma model_lines_eq:
  "model_lines model = map atom_name (filter (\<lambda>a. \<not> is_v a) (map fst (filter snd model)))"
  by (induction model) (auto simp: model_lines_def str_bool_def v_in_atom_name)

lemma digit_value_digit_char: "d < 10 \<Longrightarrow> digit_value (digit_char d) = Some d"
  by (drule digit_cases) (auto simp: digit_value_def digit_char_def)

lemma parse_digits_append_digit:
  "parse_digits s acc b = Inr m \<Longrightarrow> d < 10 \<Longrightarrow>
   parse_digits (s @ [digit_char d]) acc b = Inr (10 * m + d)"
  by (induction s acc b rule: parse_digits.induct)
     (auto simp: digit_value_digit_char split: option.splits if_splits)

lemma parse_digits_str_nat: "parse_digits (str_nat n) 0 False = Inr n"
proof (induction n rule: str_nat.induct)
  case (1 n)
  show ?case
  proof (cases "n < 10")
    case True
    then show ?thesis by (simp add: str_nat.simps [of n] digit_value_digit_char)
  next
    case False
    with "1.IH" have "parse_digits (str_nat (n div 10)) 0 False = Inr (n div 10)" by simp
    from parse_digits_append_digit [OF this, of "n mod 10"] False show ?thesis
      by (simp add: str_nat.simps [of n])
  qed
qed

lemma str_nat_inj:
  assumes "str_nat n = str_nat m"
  shows "n = m"
proof -
  have "(Inr n :: nat res) = parse_digits (str_nat n) 0 False"
    by (simp only: parse_digits_str_nat)
  also have "\<dots> = parse_digits (str_nat m) 0 False" by (simp only: assms)
  also have "\<dots> = Inr m" by (simp only: parse_digits_str_nat)
  finally show ?thesis by simp
qed

lemma split_at_separator:
  assumes "xs @ sep # ys = xs' @ sep # ys'" "sep \<notin> set xs" "sep \<notin> set xs'"
  shows "xs = xs' \<and> ys = ys'"
proof -
  have tw: "takeWhile (\<lambda>x. x \<noteq> sep) (zs @ sep # ws) = zs" if "sep \<notin> set zs" for zs ws
    using that by (induction zs) auto
  from assms(2) have "takeWhile (\<lambda>x. x \<noteq> sep) (xs @ sep # ys) = xs" by (rule tw)
  moreover from assms(3) have "takeWhile (\<lambda>x. x \<noteq> sep) (xs' @ sep # ys') = xs'" by (rule tw)
  ultimately have "xs = xs'" using assms(1) by simp
  with assms(1) show ?thesis by simp
qed

lemma atom_name_inj: "atom_name a = atom_name b \<Longrightarrow> a = b"
proof (cases a; cases b)
  fix i j i' j' assume ab: "a = C i j" "b = C i' j'" and eq: "atom_name a = atom_name b"
  then have "str_nat i @ CHR ''_'' # str_nat j = str_nat i' @ CHR ''_'' # str_nat j'" by simp
  from split_at_separator [OF this str_nat_no_underscore str_nat_no_underscore]
  show "a = b" using ab by (auto dest: str_nat_inj)
next
  fix i j i' j' assume ab: "a = V i j" "b = V i' j'" and eq: "atom_name a = atom_name b"
  then have "str_nat i @ CHR ''_'' # str_nat j = str_nat i' @ CHR ''_'' # str_nat j'" by simp
  from split_at_separator [OF this str_nat_no_underscore str_nat_no_underscore]
  show "a = b" using ab by (auto dest: str_nat_inj)
qed (auto dest: str_nat_inj)

subsection \<open>The rendered file\<close>

lemma py_range_nth: "k < nat (b - a) \<Longrightarrow> py_range a b ! k = a + int k"
  by (simp add: py_range_def)

lemma length_py_range: "length (py_range a b) = nat (b - a)"
  by (simp add: py_range_def)

lemma for_each_singletons:
  assumes "for_each xs (\<lambda>x. bnd (g x) (\<lambda>y. Inr [h x y])) = Inr ls"
  shows "length ls = length xs \<and> (\<forall>k<length xs. \<exists>y. g (xs ! k) = Inr y \<and> ls ! k = h (xs ! k) y)"
  using assms
proof (induction xs arbitrary: ls)
  case Nil
  then show ?case by simp
next
  case (Cons x xs)
  from Cons.prems obtain y zs where
    y: "g x = Inr y" and zs: "for_each xs (\<lambda>x. bnd (g x) (\<lambda>y. Inr [h x y])) = Inr zs"
    and ls: "ls = h x y # zs"
    by (auto simp: bnd_Inr_iff)
  from Cons.IH [OF zs] have len: "length zs = length xs"
    and nth: "\<forall>k<length xs. \<exists>y. g (xs ! k) = Inr y \<and> zs ! k = h (xs ! k) y" by simp_all
  have "\<exists>y. g ((x # xs) ! k) = Inr y \<and> ls ! k = h ((x # xs) ! k) y" if "k < length (x # xs)" for k
  proof (cases k)
    case 0
    with y ls show ?thesis by simp
  next
    case (Suc k')
    with that nth ls show ?thesis by simp
  qed
  with len ls show ?case by simp
qed

lemma length_role_tag: "length (role_tag n num_in num_out i) = 4"
  by (simp add: role_tag_def)

lemma grid_lines_rows:
  assumes "grid_lines n circ num_in num_out = Inr rows"
  shows "length rows = nat n"
    and "k < nat n \<Longrightarrow> take 4 (rows ! k) = role_tag n num_in num_out (int k)"
    and "[] \<notin> set rows"
proof -
  let ?g = "\<lambda>i. for_each (py_range 0 n) (\<lambda>j.
              bnd (py_index2 circ i j) (\<lambda>cell. Inr [CHR ''-'', cell, CHR ''-'']))"
  let ?h = "\<lambda>i cells. role_tag n num_in num_out i @ cells"
  from assms have "for_each (py_range 0 n) (\<lambda>i. bnd (?g i) (\<lambda>cells. Inr [?h i cells])) = Inr rows"
    by (simp add: grid_lines_def)
  from for_each_singletons [OF this]
  have len: "length rows = nat n"
    and nth: "\<forall>k<nat n. \<exists>cells. ?g (py_range 0 n ! k) = Inr cells \<and>
                rows ! k = ?h (py_range 0 n ! k) cells"
    by (simp_all add: length_py_range)
  show "length rows = nat n" by (rule len)
  show "take 4 (rows ! k) = role_tag n num_in num_out (int k)" if "k < nat n"
  proof -
    from nth that obtain cells where "rows ! k = ?h (py_range 0 n ! k) cells" by blast
    with that show ?thesis by (simp add: py_range_nth length_role_tag)
  qed
  show "[] \<notin> set rows"
  proof
    assume "[] \<in> set rows"
    then obtain k where k: "k < length rows" "rows ! k = []" by (auto simp: in_set_conv_nth)
    with len nth obtain cells where "rows ! k = ?h (py_range 0 n ! k) cells" by auto
    with k(2) have "role_tag n num_in num_out (py_range 0 n ! k) = []" by simp
    then have "length (role_tag n num_in num_out (py_range 0 n ! k)) = 0" by simp
    then show False by (simp add: length_role_tag)
  qed
qed

lemma file_lines_parts:
  assumes "file_lines n circ nots num_in num_out = Inr ls"
  obtains rows rest where "grid_lines n circ num_in num_out = Inr rows"
    "ls = rows @ [] # rest"
  using assms by (auto simp: file_lines_def bnd_Inr_iff)

lemma render_parts:
  assumes "render lines num_in num_out = Inr ls"
  obtains n circ nots where "build_circ lines = Inr (n, circ, nots)"
    "file_lines n circ nots num_in num_out = Inr ls"
  using assms by (auto simp: render_def bnd_Inr_iff)

lemma build_circ_dimension:
  assumes "build_circ lines = Inr (n, circ, nots)"
  shows "\<exists>ks. parsed (sort lines) = Inr ks \<and> ks \<noteq> [] \<and> n = Max (set ks) + 1"
proof -
  from assms obtain ks m where ks: "parsed (sort lines) = Inr ks" and m: "py_max ks = Inr m"
    and n: "n = m + 1"
    by (auto simp: build_circ_def Let_def bnd_Inr_iff)
  from m obtain x rest where "ks = x # rest" "m = fold max rest x"
    by (cases ks) (auto simp: py_max_def)
  then have "ks \<noteq> []" "m = Max (set ks)" using Max.set_eq_fold [of x rest] by simp_all
  with ks n show ?thesis by blast
qed

subsection \<open>When the encoder returns\<close>

lemma for_each_total:
  "(\<And>x. x \<in> set xs \<Longrightarrow> \<exists>ys. body x = Inr ys) \<Longrightarrow> \<exists>zs. for_each xs body = Inr zs"
proof (induction xs)
  case Nil
  then show ?case by simp
next
  case (Cons x xs)
  from Cons.prems [of x] obtain ys where "body x = Inr ys" by auto
  moreover from Cons.IH Cons.prems obtain zs where "for_each xs body = Inr zs" by auto
  ultimately show ?case by simp
qed

lemma acyclicity_total: "\<exists>fs1. acyclicity (c_array num_gates) num_gates = Inr fs1"
  unfolding acyclicity_def
proof (intro for_each_total)
  fix i j assume "i \<in> set [0..<nat num_gates]" "j \<in> set [i..<nat num_gates]"
  then have "py_index2 (c_array num_gates) (int i) (int j) = Inr (C i j)"
    by (intro c_array_at) simp_all
  then show "\<exists>ys. bnd (py_index2 (c_array num_gates) (int i) (int j))
                  (\<lambda>cij. Inr [Eq (Atom cij) (Const False)]) = Inr ys"
    by simp
qed

lemma gate_evolution_total:
  "\<exists>fs3. gate_evolution (c_array num_gates) (v_array num_gates num_rows) (n_array num_gates)
            num_gates num_rows (ceil_log2 num_rows) = Inr fs3"
  unfolding gate_evolution_def
proof (intro for_each_total)
  fix i t assume "i \<in> set [0..<nat num_gates]" "t \<in> set [0..<num_rows]"
  then have i: "i < nat num_gates" and t: "t < num_rows" by simp_all
  from temp_loop_meaning [OF i t] obtain P where
    P: "temp_loop (c_array num_gates) (v_array num_gates num_rows) i t = Inr P" by blast
  have n: "py_index (n_array num_gates) (int i) = Inr (N i)" using i by (rule n_array_at)
  have v: "py_index2 (v_array num_gates num_rows) (int i) (int t) = Inr (V i t)"
    using i t by (rule v_array_at)
  show "\<exists>ys. bnd (py_index (n_array num_gates) (int i)) (\<lambda>ni.
         bnd (temp_loop (c_array num_gates) (v_array num_gates num_rows) i t) (\<lambda>temp.
         bnd (if i < ceil_log2 num_rows
              then bnd (py_index (zfill (ceil_log2 num_rows) (bin_digits t)) (int i)) (\<lambda>ch.
                     Inr (Xor (Xor (Atom ni) temp) (Const (ch = CHR ''1''))))
              else Inr (Xor (Atom ni) temp)) (\<lambda>clause.
         bnd (py_index2 (v_array num_gates num_rows) (int i) (int t)) (\<lambda>vi.
           Inr [Eq (Atom vi) clause])))) = Inr ys"
  proof (cases "i < ceil_log2 num_rows")
    case True
    from input_bit_char [OF t True] n P v True show ?thesis by simp
  next
    case False
    with n P v show ?thesis by simp
  qed
qed

lemma output_pinning_total:
  assumes rect: "\<forall>row\<in>set truth_table. length row = num_output_bits"
    and wrap: "int num_output_bits \<le> 2 * num_gates"
  shows "\<exists>fs2. output_pinning truth_table (v_array num_gates (length truth_table)) num_gates
                  num_output_bits (length truth_table) = Inr fs2"
  unfolding output_pinning_def
proof (intro for_each_total)
  fix gate t
  assume "gate \<in> set (py_range (num_gates - int num_output_bits) num_gates)"
    "t \<in> set [0..<length truth_table]"
  then have gate: "num_gates - int num_output_bits \<le> gate" "gate < num_gates"
    and t: "t < length truth_table"
    by (simp_all add: set_py_range)
  let ?k = "gate - (num_gates - int num_output_bits)"
  from t rect have "length (truth_table ! t) = num_output_bits" by simp
  with gate have "py_index (truth_table ! t) ?k = Inr (truth_table ! t ! nat ?k)"
    by (simp add: py_index_nonneg)
  with t have rd: "py_index2 truth_table (int t) ?k = Inr (truth_table ! t ! nat ?k)"
    by (simp add: py_index2_def py_index_nat)
  from gate wrap have "- num_gates \<le> gate" by simp
  from v_array_wrap [OF this gate(2) t]
  have "py_index2 (v_array num_gates (length truth_table)) gate (int t) =
          Inr (V (nat (gate mod num_gates)) t)" .
  with rd show "\<exists>ys. bnd (py_index2 truth_table (int t) ?k) (\<lambda>table_out.
         if table_out = 0
         then bnd (py_index2 (v_array num_gates (length truth_table)) gate (int t))
                (\<lambda>a. Inr [Eq (Atom a) (Const False)])
         else bnd (py_index2 (v_array num_gates (length truth_table)) gate (int t))
                (\<lambda>a. Inr [Eq (Atom a) (Const True)])) = Inr ys"
    by simp
qed

lemma py_range_Cons:
  assumes "a < b"
  shows "\<exists>tl. py_range a b = a # tl"
proof -
  from assms obtain m where m: "nat (b - a) = Suc m" by (cases "nat (b - a)") simp_all
  have "[0..<Suc m] = 0 # [Suc 0..<Suc m]" by (rule upt_conv_Cons) simp
  with m show ?thesis by (simp add: py_range_def del: upt_Suc)
qed

lemma output_pinning_fails:
  assumes tbl: "truth_table = row0 # rest" "row0 \<noteq> []"
    and few: "2 * num_gates < int (length row0)"
  shows "output_pinning truth_table (v_array num_gates (length truth_table)) num_gates
           (length row0) (length truth_table) = Inl IndexError"
proof -
  let ?g0 = "num_gates - int (length row0)"
  let ?v = "v_array num_gates (length truth_table)"
  from tbl(2) have "?g0 < num_gates" by (cases row0) simp_all
  then obtain tl where range: "py_range ?g0 num_gates = ?g0 # tl"
    using py_range_Cons by blast
  from tbl(1) have rows: "[0..<length truth_table] = 0 # [1..<length truth_table]"
    by (simp add: upt_conv_Cons del: upt_Suc)
  from tbl have rd: "py_index2 truth_table (int 0) (?g0 - ?g0) = Inr (row0 ! 0)"
    by (cases row0) (simp_all add: py_index2_def py_index_def)
  have "\<not> (- int (length ?v) \<le> ?g0 \<and> ?g0 < int (length ?v))"
    using few by (auto simp: v_array_def)
  then have "py_index ?v ?g0 = Inl IndexError" by (simp add: py_index_def)
  then have wr: "py_index2 ?v ?g0 (int 0) = Inl IndexError" by (simp add: py_index2_def)
  show ?thesis
    unfolding output_pinning_def range rows using rd wr by simp
qed

text \<open>
  The encoder returns its assertions for every table with rows of one width and
  \<open>num_output_bits \<le> 2 * num_gates\<close>, in particular whenever
  \<open>num_output_bits \<le> num_gates\<close>; with fewer gates and at least one output column it raises.
\<close>

lemma encode_returns:
  assumes "\<forall>row\<in>set (row0 # rest). length row = length row0"
    and "int (length row0) \<le> 2 * num_gates"
  shows "\<exists>fs. encode (row0 # rest) num_gates = Inr fs"
proof -
  obtain fs1 where a: "acyclicity (c_array num_gates) num_gates = Inr fs1"
    using acyclicity_total by blast
  obtain fs3 where e: "gate_evolution (c_array num_gates) (v_array num_gates (length (row0 # rest)))
            (n_array num_gates) num_gates (length (row0 # rest)) (ceil_log2 (length (row0 # rest))) = Inr fs3"
    using gate_evolution_total by blast
  from output_pinning_total [OF assms] obtain fs2 where
    "output_pinning (row0 # rest) (v_array num_gates (length (row0 # rest))) num_gates
                (length row0) (length (row0 # rest)) = Inr fs2" by blast
  with a e show ?thesis by (simp add: encode_def Let_def)
qed

lemma encode_raises:
  assumes "row0 \<noteq> []" and "2 * num_gates < int (length row0)"
  shows "encode (row0 # rest) num_gates = Inl IndexError"
proof -
  obtain fs1 where a: "acyclicity (c_array num_gates) num_gates = Inr fs1"
    using acyclicity_total by blast
  from output_pinning_fails [OF refl assms, of rest]
  have "output_pinning (row0 # rest) (v_array num_gates (length (row0 # rest))) num_gates
                (length row0) (length (row0 # rest)) = Inl IndexError" .
  with a show ?thesis by (simp add: encode_def Let_def)
qed

lemma not_gate_answer_sound: "is_model_of not_gate_answer (encode [[1], [0]] 2)"
  by code_simp

lemma lone_not_answer_sound: "is_model_of lone_not_answer (encode [[1]] 3)"
  by code_simp

lemma py_int_2: "py_int ''2'' = Inr 2"
  by code_simp

subsection \<open>The renderer always finishes the file\<close>

text \<open>
  The matrix stays \<open>n\<close> by \<open>n\<close> through every assignment, so no read of a cell raises
  after the output file is opened: once the matrix is built and the file is opened,
  \<^verbatim>\<open>draw_circ\<close> writes the whole file.
\<close>

lemma fold_res_invariant:
  assumes "fold_res f xs s = Inr s'" "I s" "\<And>x s s'. I s \<Longrightarrow> f x s = Inr s' \<Longrightarrow> I s'"
  shows "I s'"
  using assms(1,2)
proof (induction xs arbitrary: s)
  case Nil
  then show ?case by simp
next
  case (Cons x xs)
  from Cons.prems(1) obtain s1 where s1: "f x s = Inr s1" "fold_res f xs s1 = Inr s'"
    by (auto simp: bnd_Inr_iff)
  from assms(3) [OF Cons.prems(2) s1(1)] have "I s1" .
  with s1(2) show ?case by (rule Cons.IH)
qed

lemma fold_res_total:
  assumes "\<And>x s. x \<in> set xs \<Longrightarrow> \<exists>s'. f x s = Inr s'"
  shows "\<exists>s'. fold_res f xs s = Inr s'"
  using assms
proof (induction xs arbitrary: s)
  case Nil
  then show ?case by simp
next
  case (Cons x xs)
  from Cons.prems [of x s] obtain s1 where "f x s = Inr s1" by auto
  moreover from Cons.IH [of s1] Cons.prems obtain s' where "fold_res f xs s1 = Inr s'" by auto
  ultimately show ?case by simp
qed

lemma py_update_length: "py_update xs i v = Inr ys \<Longrightarrow> length ys = length xs"
  by (auto simp: py_update_def split: if_splits)

lemma py_index_member:
  assumes "py_index xs i = Inr x"
  shows "x \<in> set xs"
proof -
  from assms have range: "- int (length xs) \<le> i" "i < int (length xs)"
    and x: "x = xs ! nat (i mod int (length xs))"
    by (auto simp: py_index_def split: if_splits)
  from range have pos: "0 < int (length xs)" by linarith
  then have "i mod int (length xs) < int (length xs)" by (rule pos_mod_bound)
  moreover from pos have "0 \<le> i mod int (length xs)" by (rule pos_mod_sign)
  ultimately have "nat (i mod int (length xs)) < length xs" by linarith
  with x show ?thesis by simp
qed

lemma py_update2_square:
  assumes "py_update2 circ i j v = Inr circ'" "square m circ"
  shows "square m circ'"
proof -
  from assms(1) obtain row row' where row: "py_index circ i = Inr row"
    and row': "py_update row j v = Inr row'" and upd: "py_update circ i row' = Inr circ'"
    by (auto simp: py_update2_def bnd_Inr_iff)
  from py_index_member [OF row] assms(2) have "length row = m"
    by (simp add: square_def list_all_iff)
  with py_update_length [OF row'] have len: "length row' = m" by simp
  from upd obtain k where "circ' = circ[k := row']" by (auto simp: py_update_def split: if_splits)
  with assms(2) len show ?thesis
    by (auto simp: square_def list_all_iff dest: set_update_subset_insert [THEN subsetD])
qed

lemma py_index2_square:
  assumes "square m circ" "0 \<le> i" "i < int m" "0 \<le> j" "j < int m"
  shows "\<exists>cell. py_index2 circ i j = Inr cell"
proof -
  from assms have "py_index circ i = Inr (circ ! nat i)" by (simp add: py_index_nonneg square_def)
  moreover from assms have "length (circ ! nat i) = m" by (simp add: square_def list_all_length)
  with assms have "py_index (circ ! nat i) j = Inr (circ ! nat i ! nat j)"
    by (simp add: py_index_nonneg)
  ultimately show ?thesis by (simp add: py_index2_def)
qed

lemma build_circ_square:
  assumes "build_circ lines = Inr (n, circ, nots)"
  shows "square (nat n) circ"
proof -
  let ?I = "square (nat n)"
  from assms obtain cs circ1 circ2 circ3 where
    c1: "fold_res (\<lambda>line circ.
             bnd (line_index line 1) (\<lambda>parsed_not. py_update2 circ parsed_not 0 NOT_GATE))
           nots (replicate (nat n) (replicate (nat n) (CHR ''-''))) = Inr circ1" and
    c2: "fold_res (\<lambda>i circ.
             fold_res (\<lambda>j circ. if i = j then py_update2 circ i j NOT_GATE else Inr circ)
               (py_range 0 n) circ)
           (py_range 0 n) circ1 = Inr circ2" and
    c3: "fold_res (\<lambda>line circ.
             bnd (line_index line 1) (\<lambda>x.
             bnd (line_index line 2) (\<lambda>y. py_update2 circ y x CONTROL_DOT)))
           cs circ2 = Inr circ3" and
    c4: "fold_res (\<lambda>i circ.
             fold_res (\<lambda>j circ.
                 bnd (py_index2 circ j i) (\<lambda>cell.
                   if cell = CHR ''-''
                   then bnd (o_above circ j i) (\<lambda>above.
                          if above then py_update2 circ j i PIPE else Inr circ)
                   else Inr circ))
               (py_range 1 i) circ)
           (py_range 1 n) circ3 = Inr circ"
    by (auto simp: build_circ_def Let_def bnd_Inr_iff)
  have "?I (replicate (nat n) (replicate (nat n) (CHR ''-'')))"
    by (simp add: square_def list_all_iff)
  with c1 have "?I circ1"
    by (rule fold_res_invariant) (auto simp: bnd_Inr_iff dest: py_update2_square)
  with c2 have "?I circ2"
  proof (rule fold_res_invariant)
    fix i :: int and s s' assume "?I s" and
      "fold_res (\<lambda>j circ. if i = j then py_update2 circ i j NOT_GATE else Inr circ)
         (py_range 0 n) s = Inr s'"
    from this(2,1) show "?I s'"
      by (rule fold_res_invariant) (auto split: if_splits dest: py_update2_square)
  qed
  with c3 have "?I circ3"
    by (rule fold_res_invariant) (auto simp: bnd_Inr_iff dest: py_update2_square)
  with c4 show "?I circ"
  proof (rule fold_res_invariant)
    fix i :: int and s s' assume "?I s" and
      "fold_res (\<lambda>j circ.
                 bnd (py_index2 circ j i) (\<lambda>cell.
                   if cell = CHR ''-''
                   then bnd (o_above circ j i) (\<lambda>above.
                          if above then py_update2 circ j i PIPE else Inr circ)
                   else Inr circ))
               (py_range 1 i) s = Inr s'"
    from this(2,1) show "?I s'"
      by (rule fold_res_invariant) (auto simp: bnd_Inr_iff split: if_splits dest: py_update2_square)
  qed
qed

lemma grid_lines_total:
  assumes "square (nat n) circ"
  shows "\<exists>rows. grid_lines n circ num_in num_out = Inr rows"
  unfolding grid_lines_def
proof (rule for_each_total)
  fix i assume "i \<in> set (py_range 0 n)"
  then have i: "0 \<le> i" "i < int (nat n)" by (simp_all add: set_py_range)
  have "\<exists>cells. for_each (py_range 0 n) (\<lambda>j.
              bnd (py_index2 circ i j) (\<lambda>cell. Inr [CHR ''-'', cell, CHR ''-''])) = Inr cells"
  proof (rule for_each_total)
    fix j assume "j \<in> set (py_range 0 n)"
    then have "0 \<le> j" "j < int (nat n)" by (simp_all add: set_py_range)
    from py_index2_square [OF assms i this] obtain cell where "py_index2 circ i j = Inr cell"
      by blast
    then show "\<exists>ys. bnd (py_index2 circ i j) (\<lambda>cell. Inr [CHR ''-'', cell, CHR ''-'']) = Inr ys"
      by simp
  qed
  then show "\<exists>ys. bnd (for_each (py_range 0 n) (\<lambda>j.
              bnd (py_index2 circ i j) (\<lambda>cell. Inr [CHR ''-'', cell, CHR ''-''])))
            (\<lambda>cells. Inr [role_tag n num_in num_out i @ cells]) = Inr ys"
    by auto
qed

lemma count_controls_total:
  assumes "square (nat n) circ" "i \<in> set (py_range 1 n)"
  shows "\<exists>k. count_controls n circ i = Inr k"
  unfolding count_controls_def
proof (rule fold_res_total)
  fix j and num_os :: nat assume "j \<in> set (py_range 0 n)"
  then have j: "0 \<le> j" "j < int (nat n)" by (simp_all add: set_py_range)
  from assms(2) have i: "0 \<le> i" "i < int (nat n)" by (simp_all add: set_py_range)
  from py_index2_square [OF assms(1) j i] obtain cell where "py_index2 circ j i = Inr cell"
    by blast
  then show "\<exists>s'. bnd (py_index2 circ j i) (\<lambda>cell.
       Inr (if cell = CONTROL_DOT then num_os + 1 else num_os)) = Inr s'"
    by simp
qed

lemma gate_counts_total:
  assumes "square (nat n) circ"
  shows "\<exists>gate_dict. gate_counts n circ nots = Inr gate_dict"
proof -
  have "\<exists>d. fold_res (\<lambda>i gate_dict.
            bnd (count_controls n circ i) (\<lambda>num_os.
              Inr (bump (replicate num_os (CHR ''C'') @ ''NOT'') gate_dict)))
          (py_range 1 n) [] = Inr d"
  proof (rule fold_res_total)
    fix i and d :: "(string \<times> nat) list" assume "i \<in> set (py_range 1 n)"
    from count_controls_total [OF assms this] obtain k where "count_controls n circ i = Inr k"
      by blast
    then show "\<exists>s'. bnd (count_controls n circ i) (\<lambda>num_os.
              Inr (bump (replicate num_os (CHR ''C'') @ ''NOT'') d)) = Inr s'"
      by simp
  qed
  then obtain d where "fold_res (\<lambda>i gate_dict.
            bnd (count_controls n circ i) (\<lambda>num_os.
              Inr (bump (replicate num_os (CHR ''C'') @ ''NOT'') gate_dict)))
          (py_range 1 n) [] = Inr d" by blast
  then show ?thesis by (simp add: gate_counts_def)
qed

lemma render_total:
  assumes "build_circ lines = Inr (n, circ, nots)"
  shows "\<exists>ls. file_lines n circ nots num_in num_out = Inr ls \<and>
              render lines num_in num_out = Inr ls"
proof -
  from assms have sq: "square (nat n) circ" by (rule build_circ_square)
  from grid_lines_total [OF sq] obtain rows where
    "grid_lines n circ num_in num_out = Inr rows" by blast
  moreover from gate_counts_total [OF sq] obtain gate_dict where
    "gate_counts n circ nots = Inr gate_dict" by blast
  ultimately show ?thesis using assms by (simp add: file_lines_def render_def)
qed

lemma draw_circ_writes_render:
  assumes "files w infile = Some lines" "render lines num_in num_out = Inr ls"
    "write_error w outfile = None"
  shows "draw_circ infile outfile num_in num_out w =
           (Inr (), print ''Drawn circuit to file.''
                      ((enter Call_draw_circ w)\<lparr>files := (files w)(outfile \<mapsto> ls)\<rparr>))"
proof -
  from assms(2) obtain n circ nots where "build_circ lines = Inr (n, circ, nots)"
    "file_lines n circ nots num_in num_out = Inr ls"
    by (rule render_parts)
  with assms(1,3) show ?thesis by (simp add: draw_circ_def write_file_opened)
qed

lemma draw_circ_cannot_open:
  assumes "files w infile = Some lines" "build_circ lines = Inr (n, circ, nots)"
    "write_error w outfile = Some e"
  shows "draw_circ infile outfile num_in num_out w = (Inl e, enter Call_draw_circ w)"
proof -
  have "write_file outfile ls (enter Call_draw_circ w) = Inl e" for ls
    using assms(3) by (simp add: write_file_raises)
  with assms(1,2) show ?thesis
    by (cases "file_lines n circ nots num_in num_out") (simp_all add: draw_circ_def)
qed

section \<open>The claims about the encoder\<close>

text \<open>
  Claim C2. For every pair of line indices \<open>i\<close> and \<open>j\<close> with \<open>i \<le> j < num_gates\<close>, the
  assertions built by \<^verbatim>\<open>solve_table\<close> contain \<^verbatim>\<open>c[i][j] == False\<close>; hence no assignment that
  satisfies them makes \<open>c[i][j]\<close> true: the control relation is strictly lower triangular.
\<close>

theorem acyclicity_enforced:
  assumes "encode truth_table num_gates = Inr fs" and "i \<le> j" and "int j < num_gates"
  shows "Eq (Atom (C i j)) (Const False) \<in> set fs \<and> (\<forall>\<sigma>. satisfies \<sigma> fs \<longrightarrow> \<not> \<sigma> (C i j))"
proof -
  from assms(1) obtain fs1 fs2 fs3 where
    a: "acyclicity (c_array num_gates) num_gates = Inr fs1" and fs: "fs = fs1 @ fs2 @ fs3"
    by (rule encode_parts)
  from assms(3) have "j < nat num_gates" by simp
  with a assms(2) have "Eq (Atom (C i j)) (Const False) \<in> set fs1" by (rule acyclicity_member)
  with fs have mem: "Eq (Atom (C i j)) (Const False) \<in> set fs" by simp
  have "\<not> \<sigma> (C i j)" if "satisfies \<sigma> fs" for \<sigma>
    using satisfies_member [OF that mem] by simp
  with mem show ?thesis by blast
qed

theorem acyclicity_enforced_witness:
  "encode [[1], [0]] 2 = Inr not_gate_formula \<and>
   Eq (Atom (C 0 1)) (Const False) \<in> set not_gate_formula \<and>
   satisfies not_gate_model not_gate_formula \<and> \<not> not_gate_model (C 0 1)"
proof -
  have "(0::nat) \<le> 1" "int 1 < 2" by simp_all
  from acyclicity_enforced [OF encode_not_gate this] not_gate_model_satisfies encode_not_gate
  show ?thesis by blast
qed

text \<open>
  Claim C3. For each line index \<open>gate\<close> among the last \<open>num_output_bits\<close> (from
  \<open>num_gates - num_output_bits\<close> up to \<open>num_gates - 1\<close>) and each row \<open>t\<close>, the assertions
  built by \<^verbatim>\<open>solve_table\<close> contain \<^verbatim>\<open>v[gate][t] == b\<close>, where \<open>b\<close> is false when the table's
  cell in row \<open>t\<close> and column \<open>gate - (num_gates - num_output_bits)\<close> is 0 and true otherwise;
  every satisfying assignment gives \<open>v[gate][t]\<close> that value. Here \<^verbatim>\<open>v[gate]\<close> is line
  \<open>gate\<close> itself for \<open>0 \<le> gate\<close>; were \<open>gate\<close> negative (more output columns than
  gates), it is Python's \<^verbatim>\<open>v[gate]\<close>, line \<open>gate mod num_gates\<close>.
\<close>

theorem output_pinning_asserted:
  assumes "encode (row0 # rest) num_gates = Inr fs"
    and "num_gates - int (length row0) \<le> gate" and "gate < num_gates"
    and "t < length (row0 # rest)"
  shows "- num_gates \<le> gate \<and>
         (0 \<le> gate \<longrightarrow> nat (gate mod num_gates) = nat gate) \<and>
         nat (gate - (num_gates - int (length row0))) < length ((row0 # rest) ! t) \<and>
         Eq (Atom (V (nat (gate mod num_gates)) t))
            (Const ((row0 # rest) ! t ! nat (gate - (num_gates - int (length row0))) \<noteq> 0)) \<in> set fs \<and>
         (\<forall>\<sigma>. satisfies \<sigma> fs \<longrightarrow>
            \<sigma> (V (nat (gate mod num_gates)) t) =
              ((row0 # rest) ! t ! nat (gate - (num_gates - int (length row0))) \<noteq> 0))"
proof -
  let ?tbl = "row0 # rest"
  let ?bit = "?tbl ! t ! nat (gate - (num_gates - int (length row0)))"
  let ?line = "nat (gate mod num_gates)"
  from assms(1) obtain r0 rs fs1 fs2 fs3 where
    tbl: "?tbl = r0 # rs" and
    p: "output_pinning ?tbl (v_array num_gates (length ?tbl)) num_gates
          (length r0) (length ?tbl) = Inr fs2" and
    fs: "fs = fs1 @ fs2 @ fs3"
    by (rule encode_parts)
  from tbl have "r0 = row0" by simp
  with p have p': "output_pinning ?tbl (v_array num_gates (length ?tbl)) num_gates
          (length row0) (length ?tbl) = Inr fs2" by simp
  from output_pinning_member [OF p' assms(2) assms(3) assms(4) assms(4)]
  have wrap: "- num_gates \<le> gate"
    and len: "nat (gate - (num_gates - int (length row0))) < length (?tbl ! t)"
    and mem2: "Eq (Atom (V ?line t)) (Const (?bit \<noteq> 0)) \<in> set fs2"
    by simp_all
  from mem2 fs have mem: "Eq (Atom (V ?line t)) (Const (?bit \<noteq> 0)) \<in> set fs" by simp
  have sem: "\<sigma> (V ?line t) = (?bit \<noteq> 0)" if "satisfies \<sigma> fs" for \<sigma>
    using satisfies_member [OF that mem] by simp
  have same: "?line = nat gate" if "0 \<le> gate"
    using that assms(3) by simp
  from wrap same len mem sem show ?thesis by blast
qed

theorem output_pinning_asserted_witness:
  "encode [[1], [0]] 2 = Inr not_gate_formula \<and>
   Eq (Atom (V 1 0)) (Const True) \<in> set not_gate_formula \<and>
   satisfies not_gate_model not_gate_formula \<and> not_gate_model (V 1 0) \<and>
   encode [[0, 1]] 1 = Inr two_outputs_formula \<and>
   Eq (Atom (V 0 0)) (Const False) \<in> set two_outputs_formula \<and>
   Eq (Atom (V 0 0)) (Const True) \<in> set two_outputs_formula"
proof -
  have a: "(2::int) - int (length [1::int]) \<le> 1" "(1::int) < 2"
    "0 < length [[1::int], [0]]" by simp_all
  from output_pinning_asserted [OF encode_not_gate a] not_gate_model_satisfies encode_not_gate
  have one: "encode [[1], [0]] 2 = Inr not_gate_formula \<and>
   Eq (Atom (V 1 0)) (Const True) \<in> set not_gate_formula \<and>
   satisfies not_gate_model not_gate_formula \<and> not_gate_model (V 1 0)"
    by auto
  have e: "encode ([0, 1] # []) 1 = Inr two_outputs_formula"
    unfolding two_outputs_formula_def by code_simp
  have b: "(1::int) - int (length [0::int, 1]) \<le> - 1" "(- 1::int) < 1"
    and c: "(1::int) - int (length [0::int, 1]) \<le> 0" "(0::int) < 1"
    and t: "0 < length ([0::int, 1] # [])" by simp_all
  from output_pinning_asserted [OF e b t]
  have two: "Eq (Atom (V 0 0)) (Const False) \<in> set two_outputs_formula" by simp
  from output_pinning_asserted [OF e c t]
  have three: "Eq (Atom (V 0 0)) (Const True) \<in> set two_outputs_formula" by simp
  from one two three e show ?thesis by simp
qed

text \<open>
  Claim C1. For every line \<open>i < num_gates\<close> and every row \<open>t\<close>, the assertions built by
  \<^verbatim>\<open>solve_table\<close> contain \<^verbatim>\<open>v[i][t] == clause\<close>, where \<open>clause\<close> is \<open>n[i]\<close> XOR a term \<open>P\<close>
  that is true exactly when \<open>v[i-count][t]\<close> or not \<open>c[i][i-count]\<close> for every \<open>count\<close> from 1
  to \<open>i\<close> (for \<open>i = 0\<close> it is true); when \<open>i < num_input_bits\<close> the clause is XORed once more
  with bit \<open>i\<close> of \<open>t\<close>, counted from the most significant bit of \<open>t\<close> written on
  \<open>num_input_bits\<close> binary digits.
\<close>

theorem gate_evolution_asserted:
  assumes "encode truth_table num_gates = Inr fs" and "int i < num_gates"
    and "t < length truth_table"
  shows "\<exists>P. (\<forall>\<sigma>. holds \<sigma> P = (\<forall>count\<in>{1..i}. \<sigma> (V (i - count) t) \<or> \<not> \<sigma> (C i (i - count)))) \<and>
           (if i < ceil_log2 (length truth_table)
            then Eq (Atom (V i t))
                   (Xor (Xor (Atom (N i)) P)
                        (Const (odd (t div 2 ^ (ceil_log2 (length truth_table) - 1 - i)))))
            else Eq (Atom (V i t)) (Xor (Atom (N i)) P)) \<in> set fs"
proof -
  from assms(1) obtain fs1 fs2 fs3 where
    ev: "gate_evolution (c_array num_gates) (v_array num_gates (length truth_table))
       (n_array num_gates) num_gates (length truth_table) (ceil_log2 (length truth_table)) = Inr fs3"
    and fs: "fs = fs1 @ fs2 @ fs3"
    by (rule encode_parts)
  from assms(2) have "i < nat num_gates" by simp
  from gate_evolution_member [OF ev this assms(3)] obtain P where
    sem: "\<forall>\<sigma>. holds \<sigma> P = (\<forall>count\<in>{1..i}. \<sigma> (V (i - count) t) \<or> \<not> \<sigma> (C i (i - count)))" and
    mem: "(if i < ceil_log2 (length truth_table)
            then Eq (Atom (V i t))
                   (Xor (Xor (Atom (N i)) P)
                        (Const (odd (t div 2 ^ (ceil_log2 (length truth_table) - 1 - i)))))
            else Eq (Atom (V i t)) (Xor (Atom (N i)) P)) \<in> set fs3"
    by blast
  from fs have "set fs3 \<subseteq> set fs" by auto
  with mem have "(if i < ceil_log2 (length truth_table)
            then Eq (Atom (V i t))
                   (Xor (Xor (Atom (N i)) P)
                        (Const (odd (t div 2 ^ (ceil_log2 (length truth_table) - 1 - i)))))
            else Eq (Atom (V i t)) (Xor (Atom (N i)) P)) \<in> set fs"
    by (rule subsetD [rotated])
  with sem show ?thesis by (intro exI [of _ P] conjI)
qed

theorem gate_evolution_asserted_witness:
  "encode [[1], [0]] 2 = Inr not_gate_formula \<and>
   satisfies not_gate_model not_gate_formula \<and>
   (\<exists>P. (\<forall>\<sigma>. holds \<sigma> P = (\<sigma> (V 0 0) \<or> \<not> \<sigma> (C 1 0))) \<and>
        Eq (Atom (V 1 0)) (Xor (Atom (N 1)) P) \<in> set not_gate_formula) \<and>
   (\<exists>P. (\<forall>\<sigma>. holds \<sigma> P) \<and>
        Eq (Atom (V 0 1)) (Xor (Xor (Atom (N 0)) P) (Const True)) \<in> set not_gate_formula)"
proof -
  have a: "int 1 < 2" "int 0 < 2" and b: "0 < length [[1::int], [0]]" "1 < length [[1::int], [0]]"
    by simp_all
  from gate_evolution_asserted [OF encode_not_gate a(1) b(1)]
  have one: "\<exists>P. (\<forall>\<sigma>. holds \<sigma> P = (\<sigma> (V 0 0) \<or> \<not> \<sigma> (C 1 0))) \<and>
        Eq (Atom (V 1 0)) (Xor (Atom (N 1)) P) \<in> set not_gate_formula"
    by (simp add: ceil_log2_2)
  from gate_evolution_asserted [OF encode_not_gate a(2) b(2)]
  have two: "\<exists>P. (\<forall>\<sigma>. holds \<sigma> P) \<and>
        Eq (Atom (V 0 1)) (Xor (Xor (Atom (N 0)) P) (Const True)) \<in> set not_gate_formula"
    by (simp add: ceil_log2_2)
  from one two encode_not_gate not_gate_model_satisfies show ?thesis by blast
qed

section \<open>The claims about the solver call, the renderer and the command line\<close>

text \<open>
  Claim C4 (corrected). The claim: a request with \<open>num_gates < num_output_bits\<close> fails as a
  configuration error before the oracle is invoked. \<^verbatim>\<open>solve_table\<close> has no such check. For a
  table with at least one output column, all rows of the same width, and
  \<open>num_gates < num_output_bits\<close>: when \<open>num_output_bits \<le> 2 * num_gates\<close> the assertions are
  built (for a negative \<open>gate\<close>, \<^verbatim>\<open>v[gate]\<close> is Python's indexing from the end) and handed to
  the oracle, whose answer \<^verbatim>\<open>solve_table\<close> returns (after SAT: provided the result file can
  be opened, else the exception of \<^verbatim>\<open>open\<close>); when \<open>2 * num_gates < num_output_bits\<close>
  the output pinning raises IndexError before the oracle is invoked, and no file is written.
\<close>

theorem too_few_gates_are_not_checked:
  assumes "files w filename = Some content" and "pd_read_csv env content = Inr (row0 # rest)"
    and "py_int num_gates = Inr ng"
    and "\<forall>row\<in>set (row0 # rest). length row = length row0" and "row0 \<noteq> []"
    and "ng < int (length row0)"
  shows "(int (length row0) \<le> 2 * ng \<longrightarrow>
            (\<exists>fs. encode (row0 # rest) ng = Inr fs \<and>
                  calls (snd (solve_table env filename num_gates out_file w)) =
                    calls w @ [Call_solve_table, Call_oracle] \<and>
                  fst (solve_table env filename num_gates out_file w) =
                    (case z3_check env fs of
                       None \<Rightarrow> Inr (False, 0, 0)
                     | Some model \<Rightarrow>
                        (case write_error w out_file of
                           None \<Rightarrow> Inr (True, ceil_log2 (length (row0 # rest)), length row0)
                         | Some e \<Rightarrow> Inl e)))) \<and>
         (2 * ng < int (length row0) \<longrightarrow>
            fst (solve_table env filename num_gates out_file w) = Inl IndexError \<and>
            calls (snd (solve_table env filename num_gates out_file w)) = calls w @ [Call_solve_table] \<and>
            files (snd (solve_table env filename num_gates out_file w)) = files w)"
proof (intro conjI impI)
  assume "int (length row0) \<le> 2 * ng"
  from encode_returns [OF assms(4) this] obtain fs where
    fs: "encode (row0 # rest) ng = Inr fs" by blast
  have "calls (snd (solve_table env filename num_gates out_file w)) =
          calls w @ [Call_solve_table, Call_oracle] \<and>
        fst (solve_table env filename num_gates out_file w) =
          (case z3_check env fs of
             None \<Rightarrow> Inr (False, 0, 0)
           | Some model \<Rightarrow>
              (case write_error w out_file of
                 None \<Rightarrow> Inr (True, ceil_log2 (length (row0 # rest)), length row0)
               | Some e \<Rightarrow> Inl e))"
  proof (cases "z3_check env fs")
    case None
    from solve_table_unsat [OF assms(1,2,3) fs None, of out_file] None show ?thesis by simp
  next
    case model: (Some model)
    show ?thesis
    proof (cases "write_error w out_file")
      case None
      from solve_table_sat [OF assms(1,2,3) fs model None] model None show ?thesis by simp
    next
      case (Some e)
      from solve_table_sat_unwritable [OF assms(1,2,3) fs model Some] model Some
      show ?thesis by simp
    qed
  qed
  with fs show "\<exists>fs. encode (row0 # rest) ng = Inr fs \<and>
                  calls (snd (solve_table env filename num_gates out_file w)) =
                    calls w @ [Call_solve_table, Call_oracle] \<and>
                  fst (solve_table env filename num_gates out_file w) =
                    (case z3_check env fs of
                       None \<Rightarrow> Inr (False, 0, 0)
                     | Some model \<Rightarrow>
                        (case write_error w out_file of
                           None \<Rightarrow> Inr (True, ceil_log2 (length (row0 # rest)), length row0)
                         | Some e \<Rightarrow> Inl e))"
    by blast
next
  assume "2 * ng < int (length row0)"
  from encode_raises [OF assms(5) this]
  have e: "encode (row0 # rest) ng = Inl IndexError" .
  with assms(1,2,3) have "solve_table env filename num_gates out_file w =
      (Inl IndexError, print '''' (print ''Adding constraints...'' (print ''Setting up arrays...''
         (print ''Reading csv File...'' (enter Call_solve_table w)))))"
    by (simp add: solve_table_def Let_def)
  then show "fst (solve_table env filename num_gates out_file w) = Inl IndexError"
    "calls (snd (solve_table env filename num_gates out_file w)) = calls w @ [Call_solve_table]"
    "files (snd (solve_table env filename num_gates out_file w)) = files w"
    by simp_all
qed

theorem too_few_gates_are_not_checked_witness:
  "(\<exists>fs. encode [[0, 1]] 1 = Inr fs \<and>
         calls (snd (solve_table (demo_env [[0, 1]] None) ''table.csv'' ''1'' ''output.txt''
                  (demo_world [''0,0,1'']))) = [Call_solve_table, Call_oracle] \<and>
         fst (solve_table (demo_env [[0, 1]] None) ''table.csv'' ''1'' ''output.txt''
                  (demo_world [''0,0,1''])) = Inr (False, 0, 0)) \<and>
   fst (solve_table (demo_env [[0, 1, 1]] None) ''table.csv'' ''1'' ''output.txt''
          (demo_world [''0,0,1,1''])) = Inl IndexError \<and>
   calls (snd (solve_table (demo_env [[0, 1, 1]] None) ''table.csv'' ''1'' ''output.txt''
          (demo_world [''0,0,1,1'']))) = [Call_solve_table]"
proof -
  have f2: "files (demo_world [''0,0,1'']) ''table.csv'' = Some [''0,0,1'']"
    and f3: "files (demo_world [''0,0,1,1'']) ''table.csv'' = Some [''0,0,1,1'']"
    by (simp_all add: demo_world_def)
  have r2: "pd_read_csv (demo_env [[0, 1]] None) [''0,0,1''] = Inr ([0, 1] # [])"
    and r3: "pd_read_csv (demo_env [[0, 1, 1]] None) [''0,0,1,1''] = Inr ([0, 1, 1] # [])"
    by (simp_all add: demo_env_def)
  have rect2: "\<forall>row\<in>set ([0::int, 1] # []). length row = length [0::int, 1]"
    and rect3: "\<forall>row\<in>set ([0::int, 1, 1] # []). length row = length [0::int, 1, 1]"
    by simp_all
  have ne: "[0::int, 1] \<noteq> []" "[0::int, 1, 1] \<noteq> []" by simp_all
  have few: "(1::int) < int (length [0::int, 1])" "(1::int) < int (length [0::int, 1, 1])"
    by simp_all
  from too_few_gates_are_not_checked [OF f2 r2 py_int_1 rect2 ne(1) few(1), of "''output.txt''"]
  have one: "\<exists>fs. encode [[0, 1]] 1 = Inr fs \<and>
         calls (snd (solve_table (demo_env [[0, 1]] None) ''table.csv'' ''1'' ''output.txt''
                  (demo_world [''0,0,1'']))) = [Call_solve_table, Call_oracle] \<and>
         fst (solve_table (demo_env [[0, 1]] None) ''table.csv'' ''1'' ''output.txt''
                  (demo_world [''0,0,1''])) = Inr (False, 0, 0)"
    by (simp add: demo_env_def demo_world_def)
  from too_few_gates_are_not_checked [OF f3 r3 py_int_1 rect3 ne(2) few(2), of "''output.txt''"]
  have two: "fst (solve_table (demo_env [[0, 1, 1]] None) ''table.csv'' ''1'' ''output.txt''
          (demo_world [''0,0,1,1''])) = Inl IndexError \<and>
   calls (snd (solve_table (demo_env [[0, 1, 1]] None) ''table.csv'' ''1'' ''output.txt''
          (demo_world [''0,0,1,1'']))) = [Call_solve_table]"
    by (simp add: demo_world_def)
  from one two show ?thesis by blast
qed

text \<open>
  The claim as stated fails: one gate for a table with two output columns reaches the oracle, and
  its answer (here: unsatisfiable, since line 0 is pinned to both 0 and 1) is returned as the
  ordinary result \<open>(False, 0, 0)\<close>.
\<close>

theorem too_few_gates_counterexample:
  "(1::int) < int (length [0::int, 1]) \<and>
   fst (solve_table (demo_env [[0, 1]] None) ''table.csv'' ''1'' ''output.txt''
          (demo_world [''0,0,1''])) = Inr (False, 0, 0) \<and>
   calls (snd (solve_table (demo_env [[0, 1]] None) ''table.csv'' ''1'' ''output.txt''
          (demo_world [''0,0,1'']))) = [Call_solve_table, Call_oracle]"
  by code_simp

text \<open>
  Claim C5. Whenever the oracle reports unsatisfiable, \<^verbatim>\<open>solve_table\<close> returns the tuple
  \<open>(False, 0, 0)\<close> without raising, leaves every file as it was, and \<^verbatim>\<open>main\<close> (for a file
  name ending in \<^verbatim>\<open>.csv\<close>) returns without calling \<^verbatim>\<open>draw_circ\<close>: the calls it made are
  \<^verbatim>\<open>solve_table\<close> and the oracle only.
\<close>

theorem unsat_is_a_result:
  assumes "files w filename = Some content" and "pd_read_csv env content = Inr truth_table"
    and "py_int num_gates = Inr ng" and "encode truth_table ng = Inr fs"
    and "z3_check env fs = None"
  shows "fst (solve_table env filename num_gates out_file w) = Inr (False, 0, 0) \<and>
         files (snd (solve_table env filename num_gates out_file w)) = files w \<and>
         (endswith filename ''.csv'' \<longrightarrow>
            fst (main env [prog, filename, num_gates, out_file] w) = Inr () \<and>
            files (snd (main env [prog, filename, num_gates, out_file] w)) = files w \<and>
            calls (snd (main env [prog, filename, num_gates, out_file] w)) =
              calls w @ [Call_solve_table, Call_oracle])"
proof -
  note st = solve_table_unsat [OF assms, of out_file]
  from assms(1) have "isfile w filename" by (simp add: isfile_def)
  with st show ?thesis by (simp add: main_def Let_def)
qed

theorem unsat_is_a_result_witness:
  "encode [[1], [1]] 1 = Inr const_one_formula \<and>
   (\<forall>\<sigma>. \<not> satisfies \<sigma> const_one_formula) \<and>
   fst (solve_table (demo_env [[1], [1]] None) ''table.csv'' ''1'' ''output.txt''
          (demo_world [''0,1'', ''1,1''])) = Inr (False, 0, 0) \<and>
   fst (main (demo_env [[1], [1]] None) [''csolver.py'', ''table.csv'', ''1'', ''output.txt'']
          (demo_world [''0,1'', ''1,1''])) = Inr () \<and>
   files (snd (main (demo_env [[1], [1]] None)
          [''csolver.py'', ''table.csv'', ''1'', ''output.txt''] (demo_world [''0,1'', ''1,1'']))) ''output.txt''
     = None \<and>
   calls (snd (main (demo_env [[1], [1]] None)
          [''csolver.py'', ''table.csv'', ''1'', ''output.txt''] (demo_world [''0,1'', ''1,1''])))
     = [Call_solve_table, Call_oracle]"
proof -
  have f: "files (demo_world [''0,1'', ''1,1'']) ''table.csv'' = Some [''0,1'', ''1,1'']"
    by (simp add: demo_world_def)
  have r: "pd_read_csv (demo_env [[1], [1]] None) [''0,1'', ''1,1''] = Inr [[1], [1]]"
    by (simp add: demo_env_def)
  have z: "z3_check (demo_env [[1], [1]] None) const_one_formula = None"
    by (simp add: demo_env_def)
  from unsat_is_a_result [OF f r py_int_1 encode_const_one z, of "''output.txt''" "''csolver.py''"]
    table_csv_ends encode_const_one const_one_unsat
  show ?thesis by (simp add: demo_world_def)
qed

text \<open>
  Claim C6. After a SAT result, when the result file can be opened for writing,
  \<^verbatim>\<open>solve_table\<close> returns normally and the file holds exactly the names of the atoms the model
  assigns true among the \<open>c\<close> and \<open>n\<close> families, one name per line, in the order of the model;
  no name of a \<open>v\<close> atom is in it, and no name of an atom the model does not assign true. (When
  the file cannot be opened, \<^verbatim>\<open>open\<close> raises and nothing is written.)
\<close>

theorem result_file_holds_true_c_and_n:
  assumes "files w filename = Some content" and "pd_read_csv env content = Inr truth_table"
    and "py_int num_gates = Inr ng" and "encode truth_table ng = Inr fs"
    and "z3_check env fs = Some model" and "write_error w out_file = None"
  shows "\<exists>ls. fst (solve_table env filename num_gates out_file w) =
                Inr (True, ceil_log2 (length truth_table), length (hd truth_table)) \<and>
           files (snd (solve_table env filename num_gates out_file w)) out_file = Some ls \<and>
           ls = map atom_name (filter (\<lambda>a. \<not> is_v a) (map fst (filter snd model))) \<and>
           set ls = atom_name ` {a. (a, True) \<in> set model \<and> \<not> is_v a} \<and>
           (\<forall>i t. atom_name (V i t) \<notin> set ls) \<and>
           (\<forall>a. (a, True) \<notin> set model \<longrightarrow> atom_name a \<notin> set ls)"
proof -
  let ?ls = "map atom_name (filter (\<lambda>a. \<not> is_v a) (map fst (filter snd model)))"
  have trues: "set (map fst (filter snd model)) = {a. (a, True) \<in> set model}"
    by force
  then have set_ls: "set ?ls = atom_name ` {a. (a, True) \<in> set model \<and> \<not> is_v a}"
    by auto
  have no_v: "atom_name (V i t) \<notin> set ?ls" for i t
  proof
    assume "atom_name (V i t) \<in> set ?ls"
    with set_ls obtain a where "atom_name (V i t) = atom_name a" "\<not> is_v a" by auto
    from atom_name_inj [OF this(1)] this(2) show False by auto
  qed
  have no_false: "atom_name a \<notin> set ?ls" if "(a, True) \<notin> set model" for a
  proof
    assume "atom_name a \<in> set ?ls"
    with set_ls obtain b where "atom_name a = atom_name b" "(b, True) \<in> set model" by auto
    from atom_name_inj [OF this(1)] this(2) that show False by auto
  qed
  from solve_table_sat [OF assms]
  have "fst (solve_table env filename num_gates out_file w) =
          Inr (True, ceil_log2 (length truth_table), length (hd truth_table))"
    and "files (snd (solve_table env filename num_gates out_file w)) out_file = Some ?ls"
    by (simp_all add: model_lines_eq)
  with set_ls no_v no_false show ?thesis by blast
qed

theorem result_file_holds_true_c_and_n_witness:
  "is_model_of not_gate_answer (encode [[1], [0]] 2) \<and>
   write_error (demo_world [''0,1'', ''1,0'']) ''output.txt'' = None \<and>
   files (snd (solve_table (demo_env [[1], [0]] (Some not_gate_answer)) ''table.csv'' ''2''
            ''output.txt'' (demo_world [''0,1'', ''1,0''])))  ''output.txt''
     = Some [''c_1_0'', ''n_0'', ''n_1''] \<and>
   write_error (demo_world [''0,1'', ''1,0'']) [] = Some FileNotFoundError \<and>
   fst (solve_table (demo_env [[1], [0]] (Some not_gate_answer)) ''table.csv'' ''2''
            [] (demo_world [''0,1'', ''1,0''])) = Inl FileNotFoundError \<and>
   files (snd (solve_table (demo_env [[1], [0]] (Some not_gate_answer)) ''table.csv'' ''2''
            [] (demo_world [''0,1'', ''1,0'']))) [] = None"
proof -
  have o: "write_error (demo_world [''0,1'', ''1,0'']) ''output.txt'' = None"
    and c: "write_error (demo_world [''0,1'', ''1,0'']) [] = Some FileNotFoundError"
    by (simp_all add: demo_world_def open_error_def)
  have f: "files (demo_world [''0,1'', ''1,0'']) ''table.csv'' = Some [''0,1'', ''1,0'']"
    by (simp add: demo_world_def)
  have r: "pd_read_csv (demo_env [[1], [0]] (Some not_gate_answer)) [''0,1'', ''1,0''] = Inr [[1], [0]]"
    by (simp add: demo_env_def)
  have z: "z3_check (demo_env [[1], [0]] (Some not_gate_answer)) not_gate_formula = Some not_gate_answer"
    by (simp add: demo_env_def)
  have names: "map atom_name (filter (\<lambda>a. \<not> is_v a) (map fst (filter snd not_gate_answer))) =
      [''c_1_0'', ''n_0'', ''n_1'']"
    by code_simp
  from solve_table_sat_unwritable [OF f r py_int_2 encode_not_gate z c]
  have closed: "fst (solve_table (demo_env [[1], [0]] (Some not_gate_answer)) ''table.csv'' ''2''
            [] (demo_world [''0,1'', ''1,0''])) = Inl FileNotFoundError \<and>
   files (snd (solve_table (demo_env [[1], [0]] (Some not_gate_answer)) ''table.csv'' ''2''
            [] (demo_world [''0,1'', ''1,0'']))) [] = None"
    by (simp add: demo_world_def)
  from result_file_holds_true_c_and_n [OF f r py_int_2 encode_not_gate z o]
    names not_gate_answer_sound o c closed
  show ?thesis by auto
qed

text \<open>
  Claim C7 (corrected). The claim: \<open>n\<close> is the largest line index in the atom file plus one,
  and \<^verbatim>\<open>draw_circ\<close> reports a malformed model when \<open>n\<close> differs from the requested
  \<open>num_gates\<close>. The first half holds, with the line index being the first number of each line;
  \<^verbatim>\<open>draw_circ\<close> is not given \<open>num_gates\<close> and compares nothing: whenever it renders, the file
  has exactly \<open>n\<close> grid lines before the blank separator.
\<close>

theorem grid_dimension_from_atoms:
  assumes "render lines num_in num_out = Inr ls"
  shows "\<exists>ks. parsed (sort lines) = Inr ks \<and> ks \<noteq> [] \<and>
           length (takeWhile (\<lambda>l. l \<noteq> []) ls) = nat (Max (set ks) + 1)"
proof -
  from assms obtain n circ nots where b: "build_circ lines = Inr (n, circ, nots)"
    and f: "file_lines n circ nots num_in num_out = Inr ls"
    by (rule render_parts)
  from f obtain rows rest where g: "grid_lines n circ num_in num_out = Inr rows"
    and ls: "ls = rows @ [] # rest"
    by (rule file_lines_parts)
  from grid_lines_rows(3) [OF g] have "takeWhile (\<lambda>l. l \<noteq> []) (rows @ [] # rest) = rows"
    by (induction rows) auto
  with ls grid_lines_rows(1) [OF g] have "length (takeWhile (\<lambda>l. l \<noteq> []) ls) = nat n" by simp
  with build_circ_dimension [OF b] show ?thesis by auto
qed

theorem grid_dimension_from_atoms_witness:
  "render [''c_1_0'', ''n_0'', ''n_1''] 1 1 =
     Inr [''|i> -X--o-'', ''|o> -X--X-'', [], [], ''===Gate Counts===='',
          ''NOT gates: 2'', ''CNOT gates: 1''] \<and>
   (\<exists>ks. parsed (sort [''c_1_0'', ''n_0'', ''n_1'']) = Inr ks \<and> ks \<noteq> [] \<and>
         2 = nat (Max (set ks) + 1))"
proof -
  have r: "render [''c_1_0'', ''n_0'', ''n_1''] 1 1 =
     Inr [''|i> -X--o-'', ''|o> -X--X-'', [], [], ''===Gate Counts===='',
          ''NOT gates: 2'', ''CNOT gates: 1'']"
    by code_simp
  from grid_dimension_from_atoms [OF r] r show ?thesis by auto
qed

text \<open>
  The claim as stated fails: with three gates requested and a model whose only true atom among
  \<open>c\<close> and \<open>n\<close> is \<open>n_0\<close>, \<^verbatim>\<open>main\<close> returns normally and the file shows a circuit of one
  line.
\<close>

theorem dimension_mismatch_counterexample:
  "is_model_of lone_not_answer (encode [[1]] 3) \<and>
   fst (main (demo_env [[1]] (Some lone_not_answer))
          [''csolver.py'', ''table.csv'', ''3'', ''output.txt''] (demo_world [''0,1''])) = Inr () \<and>
   files (snd (main (demo_env [[1]] (Some lone_not_answer))
          [''csolver.py'', ''table.csv'', ''3'', ''output.txt''] (demo_world [''0,1''])))
     ''output.txt'' =
     Some [''|o> -X-'', [], [], ''===Gate Counts===='', ''NOT gates: 1'']"
  by code_simp

text \<open>
  Claim C8 (corrected). The claim: a line that is both an input (\<open>i < num_in\<close>) and an output
  (\<open>i \<ge> n - num_out\<close>) is labelled as an output. The \<^verbatim>\<open>if\<close>/\<^verbatim>\<open>elif\<close> chain of
  \<^verbatim>\<open>draw_circ\<close> tests the input predicate first: line \<open>i\<close> of the file starts with the input
  tag whenever \<open>i < num_in\<close>, with the output tag when it is not an input and
  \<open>i \<ge> n - num_out\<close>, and with the ancilla tag otherwise. In the overlap the input label wins.
\<close>

theorem input_label_takes_precedence:
  assumes "build_circ lines = Inr (n, circ, nots)" and "0 \<le> i" and "i < n"
  shows "\<exists>ls. render lines num_in num_out = Inr ls \<and>
           take 4 (ls ! nat i) =
             (if i < num_in then ''|i> '' else if n - num_out \<le> i then ''|o> '' else ''|a> '')"
proof -
  from render_total [OF assms(1)] obtain ls where
    f: "file_lines n circ nots num_in num_out = Inr ls" and
    r: "render lines num_in num_out = Inr ls" by blast
  from f obtain rows rest where g: "grid_lines n circ num_in num_out = Inr rows"
    and ls: "ls = rows @ [] # rest"
    by (rule file_lines_parts)
  from assms(2,3) have k: "nat i < nat n" by simp
  with grid_lines_rows(1) [OF g] ls have "ls ! nat i = rows ! nat i" by (simp add: nth_append)
  with grid_lines_rows(2) [OF g k] assms(2) have "take 4 (ls ! nat i) =
             (if i < num_in then ''|i> '' else if n - num_out \<le> i then ''|o> '' else ''|a> '')"
    by (simp add: role_tag_def)
  with r show ?thesis by blast
qed

theorem input_label_takes_precedence_witness:
  "build_circ [''n_0''] = Inr (1, [[CHR ''X'']], [''n_0'']) \<and>
   render [''n_0''] 1 1 = Inr [''|i> -X-'', [], [], ''===Gate Counts===='', ''NOT gates: 1''] \<and>
   take 4 ([''|i> -X-'', [], [], ''===Gate Counts===='', ''NOT gates: 1''] ! nat 0) = ''|i> ''"
proof -
  have b: "build_circ [''n_0''] = Inr (1, [[CHR ''X'']], [''n_0''])" by code_simp
  have r: "render [''n_0''] 1 1 = Inr [''|i> -X-'', [], [], ''===Gate Counts===='', ''NOT gates: 1'']"
    by code_simp
  have i: "(0::int) \<le> 0" "(0::int) < 1" by simp_all
  from input_label_takes_precedence [OF b i, of 1 1] b r show ?thesis by simp
qed

text \<open>
  The claim as stated fails: with one line, one input bit and one output bit, line 0 satisfies
  both predicates and is labelled \<^verbatim>\<open>|i>\<close>. The program gets there for the identity table on
  one gate.
\<close>

theorem output_label_counterexample:
  "(0::int) < 1 \<and> (0::int) \<ge> 1 - 1 \<and> (1::int) + 1 > 1 \<and>
   build_circ [''n_0''] = Inr (1, [[CHR ''X'']], [''n_0'']) \<and>
   render [''n_0''] 1 1 = Inr [''|i> -X-'', [], [], ''===Gate Counts===='', ''NOT gates: 1''] \<and>
   is_model_of identity_answer (encode [[0], [1]] 1) \<and>
   files (snd (main (demo_env [[0], [1]] (Some identity_answer))
          [''csolver.py'', ''table.csv'', ''1'', ''output.txt''] (demo_world [''0,0'', ''1,1''])))
     ''output.txt'' =
     Some [''|i> -X-'', [], [], ''===Gate Counts===='', ''NOT gates: 1'']"
  by code_simp

text \<open>
  Claim C9 (corrected). The claim: a wrong number of arguments, a missing input file and a file
  name without the \<^verbatim>\<open>.csv\<close> extension each give a distinct message and a non-zero outcome,
  without calling \<^verbatim>\<open>solve_table\<close> or \<^verbatim>\<open>draw_circ\<close> and without writing a file. All of it
  holds but the outcome: \<^verbatim>\<open>main\<close> prints the message and returns normally, so the exit status
  is 0.
\<close>

theorem bad_invocation_is_reported:
  assumes "length argv \<noteq> 4 \<or> \<not> isfile w (argv ! 1) \<or> \<not> endswith (argv ! 1) ''.csv''"
  shows "main env argv w =
           (Inr (), print (if length argv \<noteq> 4 then ''Please input the correct number of arguments.''
                           else if \<not> isfile w (argv ! 1) then ''That file does not exist.''
                           else ''Please input a .csv file.'') w) \<and>
         exit_status (fst (main env argv w)) = 0 \<and>
         files (snd (main env argv w)) = files w \<and>
         calls (snd (main env argv w)) = calls w \<and>
         distinct [''Please input the correct number of arguments.'',
                   ''That file does not exist.'', ''Please input a .csv file.'']"
  using assms by (auto simp: main_def Let_def exit_status_def)

theorem bad_invocation_is_reported_witness:
  "stdout (snd (main (demo_env [] None) [''csolver.py''] (demo_world []))) =
     [''Please input the correct number of arguments.''] \<and>
   stdout (snd (main (demo_env [] None) [''csolver.py'', ''missing.csv'', ''2'', ''output.txt'']
     (demo_world []))) = [''That file does not exist.''] \<and>
   stdout (snd (main (demo_env [] None) [''csolver.py'', ''table.txt'', ''2'', ''output.txt'']
     text_world)) = [''Please input a .csv file.''] \<and>
   fst (main (demo_env [] None) [''csolver.py'', ''table.txt'', ''2'', ''output.txt''] text_world)
     = Inr () \<and>
   calls (snd (main (demo_env [] None) [''csolver.py'', ''table.txt'', ''2'', ''output.txt'']
     text_world)) = [] \<and>
   files (snd (main (demo_env [] None) [''csolver.py'', ''table.txt'', ''2'', ''output.txt'']
     text_world)) ''output.txt'' = None"
proof -
  have a: "length [''csolver.py''] \<noteq> 4 \<or> \<not> isfile (demo_world []) ([''csolver.py''] ! 1) \<or>
           \<not> endswith ([''csolver.py''] ! 1) ''.csv''" by simp
  have b: "length [''csolver.py'', ''missing.csv'', ''2'', ''output.txt''] \<noteq> 4 \<or>
           \<not> isfile (demo_world []) ([''csolver.py'', ''missing.csv'', ''2'', ''output.txt''] ! 1) \<or>
           \<not> endswith ([''csolver.py'', ''missing.csv'', ''2'', ''output.txt''] ! 1) ''.csv''"
    by (simp add: isfile_def demo_world_def)
  have c: "length [''csolver.py'', ''table.txt'', ''2'', ''output.txt''] \<noteq> 4 \<or>
           \<not> isfile text_world ([''csolver.py'', ''table.txt'', ''2'', ''output.txt''] ! 1) \<or>
           \<not> endswith ([''csolver.py'', ''table.txt'', ''2'', ''output.txt''] ! 1) ''.csv''"
    by (simp add: endswith_def)
  have ex: "isfile text_world ''table.txt''" by (simp add: isfile_def text_world_def)
  from bad_invocation_is_reported [OF a, of "demo_env [] None"]
  have one: "stdout (snd (main (demo_env [] None) [''csolver.py''] (demo_world []))) =
     [''Please input the correct number of arguments.'']"
    by (simp add: demo_world_def)
  from bad_invocation_is_reported [OF b, of "demo_env [] None"]
  have two: "stdout (snd (main (demo_env [] None)
     [''csolver.py'', ''missing.csv'', ''2'', ''output.txt''] (demo_world []))) =
     [''That file does not exist.'']"
    by (simp add: demo_world_def isfile_def)
  from bad_invocation_is_reported [OF c, of "demo_env [] None"] ex
  have three: "stdout (snd (main (demo_env [] None)
       [''csolver.py'', ''table.txt'', ''2'', ''output.txt''] text_world)) =
       [''Please input a .csv file.''] \<and>
     fst (main (demo_env [] None) [''csolver.py'', ''table.txt'', ''2'', ''output.txt''] text_world)
       = Inr () \<and>
     calls (snd (main (demo_env [] None) [''csolver.py'', ''table.txt'', ''2'', ''output.txt'']
       text_world)) = [] \<and>
     files (snd (main (demo_env [] None) [''csolver.py'', ''table.txt'', ''2'', ''output.txt'']
       text_world)) ''output.txt'' = None"
    by (simp add: text_world_def)
  from one two three show ?thesis by blast
qed

text \<open>
  The claim as stated fails: in each of the three cases the exit status is 0.
\<close>

theorem exit_status_counterexample:
  "exit_status (fst (main (demo_env [] None) [''csolver.py''] (demo_world []))) = 0 \<and>
   exit_status (fst (main (demo_env [] None)
      [''csolver.py'', ''missing.csv'', ''2'', ''output.txt''] (demo_world []))) = 0 \<and>
   exit_status (fst (main (demo_env [] None)
      [''csolver.py'', ''table.txt'', ''2'', ''output.txt''] text_world)) = 0 \<and>
   isfile text_world ''table.txt''"
  by code_simp

text \<open>
  Claim C10. When the atom file has no line, \<^verbatim>\<open>draw_circ\<close> raises ValueError (the maximum of
  an empty list) before it opens the output file: nothing is rendered and no file is written.
\<close>

theorem empty_atom_file_raises:
  assumes "files w infile = Some []"
  shows "draw_circ infile outfile num_in num_out w = (Inl ValueError, enter Call_draw_circ w) \<and>
         render [] num_in num_out = Inl ValueError"
proof -
  have "build_circ [] = Inl ValueError"
    by (simp add: build_circ_def starting_with_def parsed_def py_max_def)
  with assms show ?thesis by (simp add: draw_circ_def render_def)
qed

theorem empty_atom_file_raises_witness:
  "files empty_result_world ''output.txt'' = Some [] \<and>
   fst (draw_circ ''output.txt'' ''output.txt'' 0 1 empty_result_world) = Inl ValueError \<and>
   files (snd (draw_circ ''output.txt'' ''output.txt'' 0 1 empty_result_world)) ''output.txt''
     = Some [] \<and>
   stdout (snd (draw_circ ''output.txt'' ''output.txt'' 0 1 empty_result_world)) = [] \<and>
   is_model_of no_gate_answer (encode [[1]] 1) \<and>
   fst (main (demo_env [[1]] (Some no_gate_answer))
     [''csolver.py'', ''table.csv'', ''1'', ''output.txt''] (demo_world [''0,1''])) = Inl ValueError"
proof -
  have f: "files empty_result_world ''output.txt'' = Some []"
    by (simp add: empty_result_world_def)
  have m: "is_model_of no_gate_answer (encode [[1]] 1)" by code_simp
  have r: "fst (main (demo_env [[1]] (Some no_gate_answer))
     [''csolver.py'', ''table.csv'', ''1'', ''output.txt''] (demo_world [''0,1''])) = Inl ValueError"
    by code_simp
  from empty_atom_file_raises [OF f, of "''output.txt''" 0 1] f m r
  show ?thesis by (simp add: empty_result_world_def)
qed

end
